theory Spec2Isabelle
  imports Main
begin

section \<open>The mail cleaner (mcleaner.py) and its IMAP collaborator\<close>

text \<open>
  The script talks to a mail server through \<^verbatim>\<open>imaplib\<close> and writes a log. Both are kept
  as an explicit, ordered list of events: every call on the connection together with what
  the library answered (a return value or a raised exception), and every log record.
  The library and the server behind it are a parameter of the model: a function from the
  events so far and the call being made to the answer. Every function of the script takes
  the events so far and returns the events it adds and either the exception that leaves it
  or its return value.
\<close>

subsection \<open>Exceptions\<close>

text \<open>
  All of these are subclasses of Python's \<^verbatim>\<open>Exception\<close>. \<open>IMAP4_error\<close> stands for
  \<^verbatim>\<open>imaplib.IMAP4.error\<close> and its subclasses \<^verbatim>\<open>abort\<close> and \<^verbatim>\<open>readonly\<close>
  (\<^verbatim>\<open>imaplib.IMAP4_SSL.error\<close> is the same class); \<open>OSError\<close> stands for what the
  socket and TLS layers raise. The others are raised by the script's own expressions.
\<close>

datatype exn =
    IMAP4_error string
  | OSError string
  | KeyError string
  | IndexError
  | AttributeError
  | TypeError
  | UnicodeDecodeError
  | UnboundLocalError string

fun is_IMAP4_error :: "exn \<Rightarrow> bool" where
  "is_IMAP4_error (IMAP4_error m) = True"
| "is_IMAP4_error e = False"

subsection \<open>Calls, answers, log records\<close>

text \<open>
  A message as the script reads it: only its \<^verbatim>\<open>Date\<close> header is looked at
  (\<^verbatim>\<open>msg["Date"]\<close> is \<^verbatim>\<open>None\<close> when the header is absent). The literal of a fetch
  answer is kept as what \<^verbatim>\<open>decode('utf-8')\<close> followed by
  \<^verbatim>\<open>email.message_from_string\<close> makes of it: bytes that are not UTF-8, or a message.
\<close>

datatype message = Message (Date: "string option")

datatype literal = Not_utf8 | Rfc822 message

text \<open>
  The data of an \<^verbatim>\<open>imaplib\<close> answer is a list whose elements are byte strings, pairs
  (header, literal) or \<^verbatim>\<open>None\<close>.
\<close>

datatype item = Tuple string literal | Bytes string | NoneItem

text \<open>
  The calls keep the arguments that vary. The search criterion \<^verbatim>\<open>f'(OLDER {n})'\<close> is kept
  as its number \<open>n\<close>, an unbounded Python integer; \<^verbatim>\<open>select\<close> is always called with
  \<^verbatim>\<open>readonly=False\<close>, \<^verbatim>\<open>fetch\<close> with \<^verbatim>\<open>'(RFC822)'\<close> and \<^verbatim>\<open>store\<close> with
  \<^verbatim>\<open>'+FLAGS'\<close> and \<^verbatim>\<open>'\\Deleted'\<close>. \<open>Connect\<close> is the constructor
  \<^verbatim>\<open>imaplib.IMAP4_SSL(host)\<close>. An answer is an exception or the pair (type, data) that
  every \<^verbatim>\<open>imaplib\<close> command returns.
\<close>

datatype criterion = OLDER int

datatype call =
    Connect string
  | Login string string
  | Select string
  | Search criterion
  | Fetch string
  | Store string
  | Expunge
  | Close
  | Logout

datatype reply = Raised exn | Returned string "item list"

datatype level = INFO | ERROR

datatype logmsg =
    Start_mail_cleaner
  | Search_for_messages_older string string int
  | Add_delete_mark_dated string string string "string option"
  | Add_delete_mark string string string
  | Failed_to_search string string string
  | Delete_all_marked string string
  | IMAP_error string exn
  | Error_processing_mailbox string exn

datatype event = Call call reply | Log level logmsg

type_synonym server = "event list \<Rightarrow> call \<Rightarrow> reply"

type_synonym 'a prog = "event list \<Rightarrow> event list \<times> (exn + 'a)"

subsection \<open>Sequencing, calls and logging\<close>

definition return :: "'a \<Rightarrow> 'a prog" where
  "return x h = ([], Inr x)"

definition lift :: "exn + 'a \<Rightarrow> 'a prog" where
  "lift r h = ([], r)"

definition pbind :: "'a prog \<Rightarrow> ('a \<Rightarrow> 'b prog) \<Rightarrow> 'b prog" where
  "pbind m f h =
     (case m h of
        (t, Inl e) \<Rightarrow> (t, Inl e)
      | (t, Inr x) \<Rightarrow> (case f x (h @ t) of (t', r) \<Rightarrow> (t @ t', r)))"

definition pseq :: "'a prog \<Rightarrow> 'b prog \<Rightarrow> 'b prog" where
  "pseq m n = pbind m (\<lambda>_. n)"

definition command :: "server \<Rightarrow> call \<Rightarrow> (string \<times> item list) prog" where
  "command mail c h =
     (case mail h c of
        Raised e \<Rightarrow> ([Call c (Raised e)], Inl e)
      | Returned typ dat \<Rightarrow> ([Call c (Returned typ dat)], Inr (typ, dat)))"

definition exec :: "server \<Rightarrow> call \<Rightarrow> unit prog" where
  "exec mail c = pbind (command mail c) (\<lambda>_. return ())"

definition logging :: "level \<Rightarrow> logmsg \<Rightarrow> unit prog" where
  "logging lvl m h = ([Log lvl m], Inr ())"

text \<open>A \<^verbatim>\<open>for\<close> loop: the body runs on each element in order, and an exception of
  the body leaves the loop.\<close>

primrec for_each :: "('a \<Rightarrow> unit prog) \<Rightarrow> 'a list \<Rightarrow> unit prog" where
  "for_each body [] = return ()"
| "for_each body (x # xs) = pseq (body x) (for_each body xs)"

subsection \<open>\<^verbatim>\<open>bytes.split()\<close>\<close>

definition is_space :: "char \<Rightarrow> bool" where
  "is_space c = (c \<in> set [CHR '' '', CHR 0x09, CHR 0x0A, CHR 0x0B, CHR 0x0C, CHR 0x0D])"

fun split_from :: "string \<Rightarrow> string \<Rightarrow> string list" where
  "split_from word [] = (if word = [] then [] else [word])"
| "split_from word (c # cs) =
     (if is_space c then (if word = [] then split_from [] cs else word # split_from [] cs)
      else split_from (word @ [c]) cs)"

definition bytes_split :: "string \<Rightarrow> string list" where
  "bytes_split s = split_from [] s"

subsection \<open>\<^verbatim>\<open>process_mailbox_folder\<close>\<close>

text \<open>Line 31, \<^verbatim>\<open>messages[0].split()\<close>.\<close>

definition first_split :: "item list \<Rightarrow> exn + string list" where
  "first_split messages =
     (case messages of
        [] \<Rightarrow> Inl IndexError
      | Bytes s # _ \<Rightarrow> Inr (bytes_split s)
      | _ # _ \<Rightarrow> Inl AttributeError)"

text \<open>Lines 36 to 39, the loop over \<^verbatim>\<open>msg_data\<close>; \<open>msg\<close> is the variable it assigns.\<close>

fun parse_response :: "item list \<Rightarrow> message option \<Rightarrow> exn + message option" where
  "parse_response [] msg = Inr msg"
| "parse_response (Tuple hdr lit # parts) msg =
     (case lit of
        Not_utf8 \<Rightarrow> Inl UnicodeDecodeError
      | Rfc822 m \<Rightarrow> parse_response parts (Some m))"
| "parse_response (_ # parts) msg = parse_response parts msg"

text \<open>Line 40, \<^verbatim>\<open>msg["Date"]\<close>: subscripting \<^verbatim>\<open>None\<close> raises \<^verbatim>\<open>TypeError\<close>.\<close>

definition date_of :: "message option \<Rightarrow> exn + string option" where
  "date_of msg = (case msg of None \<Rightarrow> Inl TypeError | Some m \<Rightarrow> Inr (Date m))"

text \<open>Lines 33 to 43, the body of the loop over \<^verbatim>\<open>enumerate(messages)\<close>; \<open>n\<close> is
  \<^verbatim>\<open>len(messages)\<close>.\<close>

definition mark_message :: "server \<Rightarrow> string \<Rightarrow> string \<Rightarrow> nat \<Rightarrow> nat \<times> string \<Rightarrow> unit prog" where
  "mark_message mail user folder n = (\<lambda>(i, num).
     pseq
       (if i = 0 \<or> int i = int n - 1 then
          pbind (command mail (Fetch num)) (\<lambda>(typ, msg_data).
          pbind (lift (parse_response msg_data None)) (\<lambda>msg.
          pbind (lift (date_of msg)) (\<lambda>date.
          logging INFO (Add_delete_mark_dated user folder num date))))
        else logging INFO (Add_delete_mark user folder num))
       (exec mail (Store num)))"

definition process_mailbox_folder :: "server \<Rightarrow> string \<Rightarrow> string \<Rightarrow> int \<Rightarrow> unit prog" where
  "process_mailbox_folder mail user folder cut_time =
     pseq (exec mail (Select folder))
    (pseq (logging INFO (Search_for_messages_older user folder cut_time))
    (pbind (command mail (Search (OLDER (cut_time * 60 * 60)))) (\<lambda>(status, messages).
     pseq
       (if status = ''OK'' then
          pbind (lift (first_split messages)) (\<lambda>messages.
          for_each (mark_message mail user folder (length messages)) (enumerate 0 messages))
        else logging ERROR (Failed_to_search user folder status))
    (pseq (logging INFO (Delete_all_marked user folder))
          (exec mail Expunge)))))"

subsection \<open>\<^verbatim>\<open>process_mailbox\<close>\<close>

text \<open>
  A JSON object is a Python dict. \<open>mbox_config\<close> is only subscripted, so it is a map;
  \<open>cutoff_config\<close> and \<open>config["mboxes"]\<close> are iterated, so they are the lists of their
  (key, value) pairs in iteration order: \<^verbatim>\<open>for k in d\<close> with \<^verbatim>\<open>d[k]\<close> visits exactly
  these pairs.
\<close>

definition subscript :: "(string \<rightharpoonup> string) \<Rightarrow> string \<Rightarrow> exn + string" where
  "subscript d k = (case d k of None \<Rightarrow> Inl (KeyError k) | Some v \<Rightarrow> Inr v)"

text \<open>Lines 61 and 62: the statements of the \<^verbatim>\<open>try\<close> body up to the assignment of
  \<open>user\<close>.\<close>

definition connect_mailbox :: "server \<Rightarrow> (string \<rightharpoonup> string) \<Rightarrow> string prog" where
  "connect_mailbox mail mbox_config =
     pbind (lift (subscript mbox_config ''imap'')) (\<lambda>host.
     pseq (command mail (Connect host))
          (lift (subscript mbox_config ''username'')))"

text \<open>Lines 63 to 71: the rest of the \<^verbatim>\<open>try\<close> body.\<close>

definition process_session ::
  "server \<Rightarrow> string \<Rightarrow> (string \<rightharpoonup> string) \<Rightarrow> (string \<times> int) list \<Rightarrow> unit prog" where
  "process_session mail user mbox_config cutoff_config =
     pbind (lift (subscript mbox_config ''password'')) (\<lambda>password.
     pseq (exec mail (Login user password))
    (pseq (for_each (\<lambda>(fld, cut_time). process_mailbox_folder mail user fld cut_time) cutoff_config)
    (pseq (exec mail Close)
          (exec mail Logout))))"

text \<open>Lines 73 to 76: the record the handlers write for an exception, \<open>user\<close> being bound.\<close>

definition handler_record :: "string \<Rightarrow> exn \<Rightarrow> logmsg" where
  "handler_record user e =
     (if is_IMAP4_error e then IMAP_error user e else Error_processing_mailbox user e)"

text \<open>
  Both handlers format \<open>user\<close> into their record. When the exception left the \<^verbatim>\<open>try\<close>
  body before line 62 had assigned \<open>user\<close>, the local variable is unbound and the handler
  itself raises \<^verbatim>\<open>UnboundLocalError\<close> before anything is logged; nothing catches that one.
\<close>

definition process_mailbox ::
  "server \<Rightarrow> (string \<rightharpoonup> string) \<Rightarrow> (string \<times> int) list \<Rightarrow> unit prog" where
  "process_mailbox mail mbox_config cutoff_config h =
     (case connect_mailbox mail mbox_config h of
        (t, Inl e) \<Rightarrow> (t, Inl (UnboundLocalError ''user''))
      | (t, Inr user) \<Rightarrow>
          (case process_session mail user mbox_config cutoff_config (h @ t) of
             (t', Inl e) \<Rightarrow> (t @ t' @ [Log ERROR (handler_record user e)], Inr ())
           | (t', Inr u) \<Rightarrow> (t @ t', Inr ())))"

subsection \<open>\<^verbatim>\<open>main\<close>\<close>

text \<open>The configuration as \<^verbatim>\<open>json.load\<close> returns it. Lines 82 to 98 set up the log
  file and read the configuration from the file beside the script; a failure there ends
  the script before any account is touched, and \<open>main\<close> below starts from the loaded
  configuration.\<close>

record config =
  mboxes :: "(string \<times> (string \<rightharpoonup> string)) list"
  cutofftime :: "(string \<times> int) list"

definition main :: "server \<Rightarrow> config \<Rightarrow> unit prog" where
  "main mail cfg =
     pseq (logging INFO Start_mail_cleaner)
          (for_each (\<lambda>(mbox, mbox_config). process_mailbox mail mbox_config (cutofftime cfg))
             (mboxes cfg))"

subsection \<open>Reading a list of events\<close>

fun stores :: "event list \<Rightarrow> string list" where
  "stores [] = []"
| "stores (Call (Store num) r # t) = num # stores t"
| "stores (ev # t) = stores t"

fun fetches :: "event list \<Rightarrow> string list" where
  "fetches [] = []"
| "fetches (Call (Fetch num) r # t) = num # fetches t"
| "fetches (ev # t) = fetches t"

fun searches :: "event list \<Rightarrow> criterion list" where
  "searches [] = []"
| "searches (Call (Search c) r # t) = c # searches t"
| "searches (ev # t) = searches t"

fun calls :: "event list \<Rightarrow> call list" where
  "calls [] = []"
| "calls (Call c r # t) = c # calls t"
| "calls (Log lvl m # t) = calls t"

subsection \<open>Predicates on runs\<close>

text \<open>
  An event is raising when it is a call that the library answered with an exception. A run
  (the events added and the result) is terminal when a raising call, if there is one, is
  the last event and its exception is the result. A part of the script is well behaved when
  all its runs are terminal, and emits \<open>P\<close> when all the events it adds satisfy \<open>P\<close>.
\<close>

fun raising :: "event \<Rightarrow> bool" where
  "raising (Call c (Raised e)) = True"
| "raising ev = False"

definition clean :: "event list \<Rightarrow> bool" where
  "clean t = list_all (\<lambda>ev. \<not> raising ev) t"

definition terminal :: "event list \<times> (exn + 'a) \<Rightarrow> bool" where
  "terminal p =
     (case p of (t, r) \<Rightarrow>
        clean t \<or> (\<exists>pre c e. t = pre @ [Call c (Raised e)] \<and> clean pre \<and> r = Inl e))"

definition well :: "'a prog \<Rightarrow> bool" where
  "well m = (\<forall>h. terminal (m h))"

definition emits :: "(event \<Rightarrow> bool) \<Rightarrow> 'a prog \<Rightarrow> bool" where
  "emits P m = (\<forall>h. list_all P (fst (m h)))"

fun mark_event :: "event \<Rightarrow> bool" where
  "mark_event (Call (Fetch num) r) = True"
| "mark_event (Call (Store num) r) = True"
| "mark_event (Log INFO (Add_delete_mark_dated u f num d)) = True"
| "mark_event (Log INFO (Add_delete_mark u f num)) = True"
| "mark_event ev = False"

fun folder_event :: "event \<Rightarrow> bool" where
  "folder_event (Call (Select f) r) = True"
| "folder_event (Call (Search q) r) = True"
| "folder_event (Call Expunge r) = True"
| "folder_event (Log INFO (Search_for_messages_older u f n)) = True"
| "folder_event (Log ERROR (Failed_to_search u f s)) = True"
| "folder_event (Log INFO (Delete_all_marked u f)) = True"
| "folder_event ev = mark_event ev"

text \<open>What a call whose answer is dropped leaves as result.\<close>

abbreviation (input) reply_result :: "reply \<Rightarrow> exn + unit" where
  "reply_result rx \<equiv> (case rx of Raised e \<Rightarrow> Inl e | Returned typ dat \<Rightarrow> Inr ())"

subsection \<open>An example server\<close>

text \<open>
  The folder that \<^verbatim>\<open>imaplib\<close> has selected after the events \<open>h\<close>: a \<^verbatim>\<open>SELECT\<close>
  answered \<^verbatim>\<open>OK\<close> selects its folder, one answered otherwise leaves none selected.
\<close>

definition selected :: "event list \<Rightarrow> string option" where
  "selected h =
     foldl (\<lambda>s ev.
        case ev of
          Call (Select f) (Returned ty d) \<Rightarrow> (if ty = ''OK'' then Some f else None)
        | _ \<Rightarrow> s) None h"

text \<open>
  One server for the examples below. The host \<open>down.example.org\<close> refuses connections and
  the password \<open>wrong\<close> is rejected. The folder \<open>Missing\<close> does not exist: \<^verbatim>\<open>imaplib\<close>
  returns \<^verbatim>\<open>NO\<close> from \<^verbatim>\<open>select\<close> and then refuses \<^verbatim>\<open>search\<close> by raising.
  \<open>INBOX\<close> holds the old messages 1, 2, 3; \<open>Drafts\<close> holds 7, 8, 9 and fetching 7 fails;
  \<open>Sent\<close> holds 4, 5, 6 and flagging 5 fails; the search in \<open>Archive\<close> is answered
  \<^verbatim>\<open>NO\<close>; every other folder has no old message.
\<close>

definition example_server :: server where
  "example_server h c =
     (case c of
        Connect host \<Rightarrow>
          if host = ''down.example.org'' then Raised (OSError ''Connection refused'')
          else Returned ''OK'' []
      | Login user password \<Rightarrow>
          if password = ''wrong'' then Raised (IMAP4_error ''AUTHENTICATIONFAILED'')
          else Returned ''OK'' []
      | Select folder \<Rightarrow>
          if folder = ''Missing'' then Returned ''NO'' [Bytes ''no such mailbox'']
          else Returned ''OK'' [Bytes ''3'']
      | Search q \<Rightarrow>
          (case selected h of
             None \<Rightarrow> Raised (IMAP4_error ''command SEARCH illegal in state AUTH'')
           | Some f \<Rightarrow>
               if f = ''INBOX'' then Returned ''OK'' [Bytes ''1 2 3'']
               else if f = ''Drafts'' then Returned ''OK'' [Bytes ''7 8 9'']
               else if f = ''Sent'' then Returned ''OK'' [Bytes ''4 5 6'']
               else if f = ''Archive'' then Returned ''NO'' [Bytes ''search failed'']
               else Returned ''OK'' [Bytes []])
      | Fetch num \<Rightarrow>
          if num = ''7'' then Raised (IMAP4_error ''FETCH command error'')
          else Returned ''OK''
                 [Tuple (num @ '' (RFC822 {42}'')
                    (Rfc822 (Message (Some ''Mon, 2 Nov 2026 10:00:00 +0000''))),
                  Bytes '')'']
      | Store num \<Rightarrow>
          if num = ''5'' then Raised (IMAP4_error ''STORE command error'')
          else Returned ''OK'' []
      | Expunge \<Rightarrow> Returned ''OK'' []
      | Close \<Rightarrow> Returned ''OK'' []
      | Logout \<Rightarrow> Returned ''BYE'' [])"

definition example_account :: "string \<rightharpoonup> string" where
  "example_account =
     [''imap'' \<mapsto> ''imap.example.org'', ''username'' \<mapsto> ''alice'', ''password'' \<mapsto> ''secret'']"

subsection \<open>More readings of a list of events\<close>

text \<open>
  The calls that \<open>process_mailbox_folder\<close> makes, the folders selected, the calls of the
  session teardown, and the records written by the handlers of \<open>process_mailbox\<close>. The
  two loops over a dict are given names.
\<close>

fun folder_call :: "call \<Rightarrow> bool" where
  "folder_call (Select f) = True"
| "folder_call (Search q) = True"
| "folder_call (Fetch num) = True"
| "folder_call (Store num) = True"
| "folder_call Expunge = True"
| "folder_call c = False"

fun selects :: "event list \<Rightarrow> string list" where
  "selects [] = []"
| "selects (Call (Select f) r # t) = f # selects t"
| "selects (ev # t) = selects t"

definition teardown_calls :: "event list \<Rightarrow> call list" where
  "teardown_calls t = filter (\<lambda>c. c = Close \<or> c = Logout) (calls t)"

fun handler_event :: "event \<Rightarrow> bool" where
  "handler_event (Log ERROR (IMAP_error user e)) = True"
| "handler_event (Log ERROR (Error_processing_mailbox user e)) = True"
| "handler_event ev = False"

abbreviation (input) folder_loop :: "server \<Rightarrow> string \<Rightarrow> (string \<times> int) list \<Rightarrow> unit prog" where
  "folder_loop mail user cutoff_config \<equiv>
     for_each (\<lambda>(fld, cut_time). process_mailbox_folder mail user fld cut_time) cutoff_config"

subsection \<open>Example accounts and configurations\<close>

definition down_account :: "string \<rightharpoonup> string" where
  "down_account =
     [''imap'' \<mapsto> ''down.example.org'', ''username'' \<mapsto> ''bob'', ''password'' \<mapsto> ''secret'']"

definition locked_account :: "string \<rightharpoonup> string" where
  "locked_account =
     [''imap'' \<mapsto> ''imap.example.org'', ''username'' \<mapsto> ''carol'', ''password'' \<mapsto> ''wrong'']"

definition incomplete_account :: "string \<rightharpoonup> string" where
  "incomplete_account = [''imap'' \<mapsto> ''imap.example.org'', ''username'' \<mapsto> ''dave'']"

abbreviation (input) account_loop :: "server \<Rightarrow> (string \<times> int) list \<Rightarrow>
    (string \<times> (string \<rightharpoonup> string)) list \<Rightarrow> unit prog" where
  "account_loop mail cutoff_config accounts \<equiv>
     for_each (\<lambda>(mbox, mbox_config). process_mailbox mail mbox_config cutoff_config) accounts"

definition outage_config :: config where
  "outage_config =
     \<lparr>mboxes = [(''bob'', down_account), (''alice'', example_account)],
      cutofftime = [(''Spam'', 1)]\<rparr>"

definition lockout_config :: config where
  "lockout_config =
     \<lparr>mboxes = [(''carol'', locked_account), (''alice'', example_account)],
      cutofftime = [(''Spam'', 1)]\<rparr>"

section \<open>Properties\<close>

subsection \<open>Reading appended events\<close>

lemma stores_append [simp]: "stores (t @ t') = stores t @ stores t'"
  by (induction t rule: stores.induct) simp_all

lemma fetches_append [simp]: "fetches (t @ t') = fetches t @ fetches t'"
  by (induction t rule: fetches.induct) simp_all

lemma searches_append [simp]: "searches (t @ t') = searches t @ searches t'"
  by (induction t rule: searches.induct) simp_all

lemma calls_append [simp]: "calls (t @ t') = calls t @ calls t'"
  by (induction t rule: calls.induct) simp_all

lemma clean_append [simp]: "clean (t @ t') = (clean t \<and> clean t')"
  by (simp add: clean_def)

lemma clean_Nil [simp]: "clean []"
  by (simp add: clean_def)

lemma clean_Cons [simp]: "clean (ev # t) = (\<not> raising ev \<and> clean t)"
  by (simp add: clean_def)

subsection \<open>Running the combinators\<close>

lemma pbind_Inl: "m h = (t, Inl e) \<Longrightarrow> pbind m f h = (t, Inl e)"
  by (simp add: pbind_def)

lemma pbind_Inr:
  "m h = (t, Inr x) \<Longrightarrow> pbind m f h = (t @ fst (f x (h @ t)), snd (f x (h @ t)))"
  by (simp add: pbind_def split: prod.splits)

lemma pbind_cases:
  assumes "pbind m f h = (t, r)"
  obtains (raised) e where "m h = (t, Inl e)" and "r = Inl e"
  | (returned) t1 x t2 where "m h = (t1, Inr x)" and "f x (h @ t1) = (t2, r)" and "t = t1 @ t2"
  using assms by (auto simp: pbind_def split: prod.splits sum.splits)

lemma pseq_cases:
  assumes "pseq m n h = (t, r)"
  obtains (raised) e where "m h = (t, Inl e)" and "r = Inl e"
  | (returned) t1 x t2 where "m h = (t1, Inr x)" and "n (h @ t1) = (t2, r)" and "t = t1 @ t2"
  using assms unfolding pseq_def by (erule pbind_cases) auto

lemma exec_run:
  "exec mail c h =
     (case mail h c of
        Raised e \<Rightarrow> ([Call c (Raised e)], Inl e)
      | Returned typ dat \<Rightarrow> ([Call c (Returned typ dat)], Inr ()))"
  by (simp add: exec_def pbind_def command_def return_def split: reply.splits)

lemma for_each_Cons_cases:
  assumes "for_each body (x # xs) h = (t, r)"
  obtains (raised) e where "body x h = (t, Inl e)" and "r = Inl e"
  | (returned) t1 t2 where "body x h = (t1, Inr ())" and "for_each body xs (h @ t1) = (t2, r)"
      and "t = t1 @ t2"
  using assms by (auto elim!: pseq_cases)

lemma for_each_append:
  "for_each body (xs @ ys) = pseq (for_each body xs) (for_each body ys)"
proof (induction xs)
  case Nil
  show ?case by (rule ext) (simp add: pseq_def pbind_def return_def split: prod.splits)
next
  case (Cons x xs)
  show ?case
    by (rule ext) (simp add: Cons pseq_def pbind_def split: prod.splits sum.splits)
qed

subsection \<open>A raising call ends the run\<close>

lemma terminal_Inr: "terminal (t, Inr x) \<Longrightarrow> clean t"
  by (auto simp: terminal_def)

lemma terminal_raised:
  assumes "terminal (t, r)" and "t = pre @ Call c (Raised e) # post"
  shows "post = [] \<and> r = Inl e \<and> clean pre"
proof -
  from assms have "\<not> clean t" by simp
  with assms(1) obtain pre' c' e' where t: "t = pre' @ [Call c' (Raised e')]"
    and pre': "clean pre'" and r: "r = Inl e'"
    by (auto simp: terminal_def)
  show ?thesis
  proof (cases post rule: rev_cases)
    case Nil
    with t assms(2) pre' r show ?thesis by simp
  next
    case (snoc post' ev)
    with t assms(2) have "pre' = pre @ Call c (Raised e) # post'" by simp
    with pre' show ?thesis by simp
  qed
qed

lemma well_return [simp]: "well (return x)"
  by (simp add: well_def terminal_def return_def)

lemma well_lift [simp]: "well (lift r)"
  by (simp add: well_def terminal_def lift_def)

lemma well_logging [simp]: "well (logging lvl m)"
  by (simp add: well_def terminal_def logging_def)

lemma well_command [simp]: "well (command mail c)"
  by (auto simp: well_def terminal_def command_def split: reply.splits)

lemma well_pbind: "well m \<Longrightarrow> (\<And>x. well (f x)) \<Longrightarrow> well (pbind m f)"
  unfolding well_def
proof
  fix h
  assume m: "\<forall>h. terminal (m h)" and f: "\<And>x. \<forall>h. terminal (f x h)"
  obtain t r where run: "pbind m f h = (t, r)" by (cases "pbind m f h")
  from run show "terminal (pbind m f h)"
  proof (cases rule: pbind_cases)
    case (raised e)
    with m[rule_format, of h] run show ?thesis by (simp add: terminal_def)
  next
    case (returned t1 x t2)
    from m[rule_format, of h] returned(1) have c1: "clean t1"
      by (simp add: terminal_Inr)
    from f[of x, rule_format, of "h @ t1"] returned(2) have "terminal (t2, r)" by simp
    then have "terminal (t1 @ t2, r)"
      using c1 by (auto simp: terminal_def intro: exI[where x = "t1 @ pre" for pre])
    with run returned(3) show ?thesis by simp
  qed
qed

lemma well_pseq: "well m \<Longrightarrow> well n \<Longrightarrow> well (pseq m n)"
  by (simp add: pseq_def well_pbind)

lemma well_exec [simp]: "well (exec mail c)"
  by (simp add: exec_def well_pbind)

lemma well_for_each: "(\<And>x. well (body x)) \<Longrightarrow> well (for_each body xs)"
  by (induction xs) (simp_all add: well_pseq)

lemma well_mark_message [simp]: "well (mark_message mail user folder n p)"
  by (cases p) (auto simp: mark_message_def intro!: well_pseq well_pbind)

lemma well_process_mailbox_folder [simp]: "well (process_mailbox_folder mail user folder cut_time)"
  unfolding process_mailbox_folder_def
  by (auto intro!: well_pseq well_pbind well_for_each)

lemma well_connect_mailbox [simp]: "well (connect_mailbox mail mbox_config)"
  unfolding connect_mailbox_def by (auto intro!: well_pseq well_pbind)

lemma well_process_session [simp]: "well (process_session mail user mbox_config cutoff_config)"
  unfolding process_session_def by (auto intro!: well_pseq well_pbind well_for_each)

subsection \<open>Which events a part of the script can add\<close>

lemma emits_return [simp]: "emits P (return x)"
  by (simp add: emits_def return_def)

lemma emits_lift [simp]: "emits P (lift r)"
  by (simp add: emits_def lift_def)

lemma emits_logging [simp]: "emits P (logging lvl m) = P (Log lvl m)"
  by (simp add: emits_def logging_def)

lemma emits_command: "(\<And>r. P (Call c r)) \<Longrightarrow> emits P (command mail c)"
  by (simp add: emits_def command_def split: reply.splits)

lemma emits_pbind: "emits P m \<Longrightarrow> (\<And>x. emits P (f x)) \<Longrightarrow> emits P (pbind m f)"
  by (auto simp: emits_def pbind_def split: prod.splits sum.splits)
    (metis fst_conv)+

lemma emits_pseq: "emits P m \<Longrightarrow> emits P n \<Longrightarrow> emits P (pseq m n)"
  by (simp add: pseq_def emits_pbind)

lemma emits_exec: "(\<And>r. P (Call c r)) \<Longrightarrow> emits P (exec mail c)"
  by (simp add: emits_def exec_run split: reply.splits)

lemma emits_for_each: "(\<And>x. emits P (body x)) \<Longrightarrow> emits P (for_each body xs)"
  by (induction xs) (simp_all add: emits_pseq)

lemma emitsD: "emits P m \<Longrightarrow> m h = (t, r) \<Longrightarrow> list_all P t"
  by (metis emits_def fst_conv)

lemma emits_mark_message [simp]: "emits mark_event (mark_message mail user folder n p)"
  by (cases p) (auto simp: mark_message_def intro!: emits_pseq emits_pbind emits_command emits_exec)

lemma emits_mark_loop [simp]:
  "emits mark_event (for_each (mark_message mail user folder n) ps)"
  by (simp add: emits_for_each)

lemma mark_event_folder_event: "mark_event ev \<Longrightarrow> folder_event ev"
  by (cases ev rule: folder_event.cases) simp_all

subsection \<open>The runs of \<^verbatim>\<open>process_mailbox_folder\<close>\<close>

lemma exec_result: "exec mail c h = ([Call c (mail h c)], reply_result (mail h c))"
  by (simp add: exec_run split: reply.splits)

lemma pseq_logging:
  "pseq (logging lvl m) n h = (Log lvl m # fst (n (h @ [Log lvl m])), snd (n (h @ [Log lvl m])))"
  by (simp add: pseq_def pbind_def logging_def split: prod.splits)

lemma pbind_lift: "pbind (lift r) f h = (case r of Inl e \<Rightarrow> ([], Inl e) | Inr x \<Rightarrow> f x h)"
  by (simp add: pbind_def lift_def split: sum.splits prod.splits)

lemma process_mailbox_folder_cases [consumes 1, case_names select_raised search_raised
    search_failed split_raised marks_raised marks_done]:
  assumes run: "process_mailbox_folder mail user folder cut_time h = (t, r)"
  obtains
    (select_raised) e where
      "mail h (Select folder) = Raised e"
      "t = [Call (Select folder) (Raised e)]" "r = Inl e"
  | (search_raised) ty dat e where
      "mail h (Select folder) = Returned ty dat"
      "t = [Call (Select folder) (Returned ty dat),
            Log INFO (Search_for_messages_older user folder cut_time),
            Call (Search (OLDER (cut_time * 60 * 60))) (Raised e)]"
      "r = Inl e"
  | (search_failed) ty dat status messages rx where
      "mail h (Select folder) = Returned ty dat"
      "status \<noteq> ''OK''"
      "t = [Call (Select folder) (Returned ty dat),
            Log INFO (Search_for_messages_older user folder cut_time),
            Call (Search (OLDER (cut_time * 60 * 60))) (Returned status messages),
            Log ERROR (Failed_to_search user folder status),
            Log INFO (Delete_all_marked user folder),
            Call Expunge rx]"
      "r = reply_result rx"
  | (split_raised) ty dat messages e where
      "mail h (Select folder) = Returned ty dat"
      "first_split messages = Inl e"
      "t = [Call (Select folder) (Returned ty dat),
            Log INFO (Search_for_messages_older user folder cut_time),
            Call (Search (OLDER (cut_time * 60 * 60))) (Returned ''OK'' messages)]"
      "r = Inl e"
  | (marks_raised) ty dat messages msgs tm e where
      "mail h (Select folder) = Returned ty dat"
      "first_split messages = Inr msgs"
      "for_each (mark_message mail user folder (length msgs)) (enumerate 0 msgs)
         (h @ [Call (Select folder) (Returned ty dat),
               Log INFO (Search_for_messages_older user folder cut_time),
               Call (Search (OLDER (cut_time * 60 * 60))) (Returned ''OK'' messages)])
       = (tm, Inl e)"
      "t = [Call (Select folder) (Returned ty dat),
            Log INFO (Search_for_messages_older user folder cut_time),
            Call (Search (OLDER (cut_time * 60 * 60))) (Returned ''OK'' messages)] @ tm"
      "r = Inl e"
  | (marks_done) ty dat messages msgs tm rx where
      "mail h (Select folder) = Returned ty dat"
      "first_split messages = Inr msgs"
      "for_each (mark_message mail user folder (length msgs)) (enumerate 0 msgs)
         (h @ [Call (Select folder) (Returned ty dat),
               Log INFO (Search_for_messages_older user folder cut_time),
               Call (Search (OLDER (cut_time * 60 * 60))) (Returned ''OK'' messages)])
       = (tm, Inr ())"
      "t = [Call (Select folder) (Returned ty dat),
            Log INFO (Search_for_messages_older user folder cut_time),
            Call (Search (OLDER (cut_time * 60 * 60))) (Returned ''OK'' messages)] @ tm @
           [Log INFO (Delete_all_marked user folder), Call Expunge rx]"
      "r = reply_result rx"
proof -
  let ?q = "Search (OLDER (cut_time * 60 * 60))"
  let ?l = "Log INFO (Search_for_messages_older user folder cut_time)"
  from run[unfolded process_mailbox_folder_def] show thesis
  proof (cases rule: pseq_cases)
    case (raised e)
    then show thesis
      by (intro select_raised[of e]) (auto simp: exec_run split: reply.splits)
  next
    case sel: (returned t1 x t2)
    from sel(1) obtain ty dat where sel_ok: "mail h (Select folder) = Returned ty dat"
      and t1: "t1 = [Call (Select folder) (Returned ty dat)]"
      by (auto simp: exec_run split: reply.splits)
    from sel(2) have rest: "pbind (command mail ?q) (\<lambda>(status, messages).
        pseq (if status = ''OK'' then
                pbind (lift (first_split messages)) (\<lambda>messages.
                  for_each (mark_message mail user folder (length messages)) (enumerate 0 messages))
              else logging ERROR (Failed_to_search user folder status))
          (pseq (logging INFO (Delete_all_marked user folder)) (exec mail Expunge)))
        (h @ t1 @ [?l]) = (tl t2, r) \<and> t2 = ?l # tl t2"
      by (auto simp: pseq_logging)
    then have t2: "t2 = ?l # tl t2" by simp
    from rest[THEN conjunct1] show thesis
    proof (cases rule: pbind_cases)
      case (raised e)
      then have "tl t2 = [Call ?q (Raised e)]"
        by (auto simp: command_def split: reply.splits)
      with raised sel(3) t1 t2 sel_ok show thesis
        by (intro search_raised[of ty dat e]) simp_all
    next
      case srch: (returned t3 x3 t4)
      obtain status messages where x3: "x3 = (status, messages)" by (cases x3)
      with srch(1) have t3: "t3 = [Call ?q (Returned status messages)]"
        by (auto simp: command_def split: reply.splits)
      have t: "t = [Call (Select folder) (Returned ty dat), ?l, Call ?q (Returned status messages)] @ t4"
        using sel(3) t1 t2 srch(3) t3 by simp
      let ?h3 = "h @ [Call (Select folder) (Returned ty dat), ?l, Call ?q (Returned status messages)]"
      show thesis
      proof (cases "status = ''OK''")
        case False
        with srch(2) x3 t1 t3 have "t4 = [Log ERROR (Failed_to_search user folder status),
            Log INFO (Delete_all_marked user folder),
            Call Expunge (mail (?h3 @ [Log ERROR (Failed_to_search user folder status),
              Log INFO (Delete_all_marked user folder)]) Expunge)]
          \<and> r = reply_result (mail (?h3 @ [Log ERROR (Failed_to_search user folder status),
              Log INFO (Delete_all_marked user folder)]) Expunge)"
          by (auto simp: pseq_logging exec_result)
        with t False sel_ok show thesis
          by (intro search_failed[of ty dat status messages]) simp_all
      next
        case True
        from srch(2) x3 True t1 t3 have "pseq (pbind (lift (first_split messages)) (\<lambda>messages.
                  for_each (mark_message mail user folder (length messages)) (enumerate 0 messages)))
          (pseq (logging INFO (Delete_all_marked user folder)) (exec mail Expunge)) ?h3 = (t4, r)"
          by simp
        then show thesis
        proof (cases rule: pseq_cases)
          case (raised e)
          show thesis
          proof (cases "first_split messages")
            case (Inl e')
            with raised have "t4 = [] \<and> e' = e" by (simp add: pbind_lift)
            with Inl raised t True sel_ok show thesis
              by (intro split_raised[of ty dat messages e]) simp_all
          next
            case (Inr msgs)
            with raised have "for_each (mark_message mail user folder (length msgs))
                (enumerate 0 msgs) ?h3 = (t4, Inl e)"
              by (simp add: pbind_lift)
            with Inr raised t True sel_ok show thesis
              by (intro marks_raised[of ty dat messages msgs t4 e]) simp_all
          qed
        next
          case fin: (returned tm u t5)
          from fin(1) obtain msgs where msgs: "first_split messages = Inr msgs"
            and loop: "for_each (mark_message mail user folder (length msgs))
                (enumerate 0 msgs) ?h3 = (tm, Inr ())"
            by (cases "first_split messages") (auto simp: pbind_lift)
          from fin(2) have "t5 = [Log INFO (Delete_all_marked user folder),
              Call Expunge (mail (?h3 @ tm @ [Log INFO (Delete_all_marked user folder)]) Expunge)]
            \<and> r = reply_result (mail (?h3 @ tm @ [Log INFO (Delete_all_marked user folder)]) Expunge)"
            by (auto simp: pseq_logging exec_result)
          with msgs loop t fin(3) True sel_ok show thesis
            by (intro marks_done[of ty dat messages msgs tm]) simp_all
        qed
      qed
    qed
  qed
qed

subsection \<open>What the mark loop adds\<close>

lemma mark_events_searches: "list_all mark_event t \<Longrightarrow> searches t = []"
  by (induction t rule: searches.induct) simp_all

lemma mark_events_calls:
  "list_all mark_event t \<Longrightarrow> c \<in> set (calls t) \<Longrightarrow> (\<exists>num. c = Fetch num \<or> c = Store num)"
  by (induction t) (auto elim!: mark_event.elims(2))

lemma mark_events_not_search: "list_all mark_event t \<Longrightarrow> Call (Search q) rs \<notin> set t"
  by (induction t) auto

lemma mark_loop_events:
  "for_each (mark_message mail user folder n) ps h = (t, r) \<Longrightarrow> list_all mark_event t"
  by (rule emitsD[OF emits_mark_loop])

lemma mark_message_cases [consumes 1, case_names fetch_raised parse_raised dated plain]:
  assumes "mark_message mail user folder n (i, num) h = (t, r)"
  obtains
    (fetch_raised) e where "i = 0 \<or> int i = int n - 1"
      "t = [Call (Fetch num) (Raised e)]" "r = Inl e"
  | (parse_raised) ty dat e where "i = 0 \<or> int i = int n - 1"
      "t = [Call (Fetch num) (Returned ty dat)]" "r = Inl e"
  | (dated) ty dat date rx where "i = 0 \<or> int i = int n - 1"
      "t = [Call (Fetch num) (Returned ty dat),
            Log INFO (Add_delete_mark_dated user folder num date),
            Call (Store num) rx]"
      "r = reply_result rx"
  | (plain) rx where "\<not> (i = 0 \<or> int i = int n - 1)"
      "t = [Log INFO (Add_delete_mark user folder num), Call (Store num) rx]"
      "r = reply_result rx"
proof (cases "i = 0 \<or> int i = int n - 1")
  case False
  with assms show thesis
    by (intro plain[of "mail (h @ [Log INFO (Add_delete_mark user folder num)]) (Store num)"])
      (auto simp: mark_message_def pseq_logging exec_result)
next
  case True
  show thesis
  proof (cases "mail h (Fetch num)")
    case (Raised e)
    with assms True show thesis
      by (intro fetch_raised[of e])
        (auto simp: mark_message_def pseq_def pbind_def command_def)
  next
    case (Returned ty dat)
    show thesis
    proof (cases "parse_response dat None")
      case (Inl e)
      with assms True Returned show thesis
        by (intro parse_raised[of ty dat e])
          (auto simp: mark_message_def pseq_def pbind_def command_def lift_def)
    next
      case (Inr msg)
      show thesis
      proof (cases "date_of msg")
        case (Inl e)
        with assms True Returned Inr show thesis
          by (intro parse_raised[of ty dat e])
            (auto simp: mark_message_def pseq_def pbind_def command_def lift_def)
      next
        case date: (Inr date)
        with assms True Returned Inr show thesis
          by (intro dated[of ty dat date "mail (h @ [Call (Fetch num) (Returned ty dat),
                Log INFO (Add_delete_mark_dated user folder num date)]) (Store num)"])
            (auto simp: mark_message_def pseq_def pbind_def command_def lift_def logging_def
              exec_result)
      qed
    qed
  qed
qed


lemma mark_loop_fetch_raised:
  "for_each (mark_message mail user folder n) ps h = (t, r) \<Longrightarrow>
   Call (Fetch num) (Raised e) \<in> set t \<Longrightarrow>
   \<exists>k < length ps. stores t = map snd (take k ps) \<and> ps ! k = (fst (ps ! k), num) \<and>
     (fst (ps ! k) = 0 \<or> int (fst (ps ! k)) = int n - 1)"
proof (induction ps arbitrary: h t)
  case Nil
  then show ?case by (simp add: return_def)
next
  case (Cons p ps)
  obtain i num' where p: "p = (i, num')" by (cases p)
  from Cons.prems(1) show ?case
  proof (cases rule: for_each_Cons_cases)
    case (raised e')
    from raised(1)[unfolded p] Cons.prems(2) have "stores t = [] \<and> num' = num \<and>
        (i = 0 \<or> int i = int n - 1)"
      by (cases rule: mark_message_cases) (auto split: reply.splits)
    with p show ?thesis by (intro exI[of _ 0]) simp
  next
    case (returned t1 t2)
    from returned(1)[unfolded p] have t1: "stores t1 = [num'] \<and> Call (Fetch num) (Raised e) \<notin> set t1"
      by (cases rule: mark_message_cases) (auto split: reply.splits)
    with Cons.prems(2) returned(3) have "Call (Fetch num) (Raised e) \<in> set t2" by simp
    from Cons.IH[OF returned(2) this] obtain k where "k < length ps"
      "stores t2 = map snd (take k ps)" "ps ! k = (fst (ps ! k), num)"
      "fst (ps ! k) = 0 \<or> int (fst (ps ! k)) = int n - 1" by blast
    with t1 returned(3) p show ?thesis by (intro exI[of _ "Suc k"]) simp
  qed
qed


lemma first_split_Inr: "first_split messages = Inr msgs \<Longrightarrow>
    \<exists>s others. messages = Bytes s # others \<and> msgs = bytes_split s"
  by (auto simp: first_split_def split: list.splits item.splits)

lemmas run_defs = process_mailbox_folder_def mark_message_def pseq_def pbind_def exec_def
  command_def logging_def lift_def return_def first_split_def bytes_split_def is_space_def
  date_of_def enumerate_eq_zip example_server_def selected_def

lemma wellD: "well m \<Longrightarrow> m h = (t, r) \<Longrightarrow> terminal (t, r)"
  by (metis well_def)

lemma mark_events_not_expunge: "list_all mark_event t \<Longrightarrow> Expunge \<notin> set (calls t)"
  by (auto dest: mark_events_calls)

subsection \<open>Runs against the example server\<close>


lemma spam_run:
  "process_mailbox_folder example_server ''alice'' ''Spam'' 1 [] =
     ([Call (Select ''Spam'') (Returned ''OK'' [Bytes ''3'']),
       Log INFO (Search_for_messages_older ''alice'' ''Spam'' 1),
       Call (Search (OLDER 3600)) (Returned ''OK'' [Bytes []]),
       Log INFO (Delete_all_marked ''alice'' ''Spam''),
       Call Expunge (Returned ''OK'' [])],
      Inr ())"
  by (simp add: run_defs)

lemma archive_run:
  "process_mailbox_folder example_server ''alice'' ''Archive'' 24 [] =
     ([Call (Select ''Archive'') (Returned ''OK'' [Bytes ''3'']),
       Log INFO (Search_for_messages_older ''alice'' ''Archive'' 24),
       Call (Search (OLDER 86400)) (Returned ''NO'' [Bytes ''search failed'']),
       Log ERROR (Failed_to_search ''alice'' ''Archive'' ''NO''),
       Log INFO (Delete_all_marked ''alice'' ''Archive''),
       Call Expunge (Returned ''OK'' [])],
      Inr ())"
  by (simp add: run_defs)

lemma drafts_run:
  "process_mailbox_folder example_server ''alice'' ''Drafts'' 24 [] =
     ([Call (Select ''Drafts'') (Returned ''OK'' [Bytes ''3'']),
       Log INFO (Search_for_messages_older ''alice'' ''Drafts'' 24),
       Call (Search (OLDER 86400)) (Returned ''OK'' [Bytes ''7 8 9'']),
       Call (Fetch ''7'') (Raised (IMAP4_error ''FETCH command error''))],
      Inl (IMAP4_error ''FETCH command error''))"
  by (simp add: run_defs)

subsection \<open>The runs of \<^verbatim>\<open>process_mailbox\<close>\<close>

lemma selects_append [simp]: "selects (t @ t') = selects t @ selects t'"
  by (induction t rule: selects.induct) simp_all

lemma teardown_calls_append [simp]:
  "teardown_calls (t @ t') = teardown_calls t @ teardown_calls t'"
  by (simp add: teardown_calls_def)

lemma teardown_calls_simps [simp]:
  "teardown_calls [] = []"
  "teardown_calls (Log lvl m # t) = teardown_calls t"
  "teardown_calls (Call c r # t) =
     (if c = Close \<or> c = Logout then c # teardown_calls t else teardown_calls t)"
  by (simp_all add: teardown_calls_def)

lemma handler_event_record [simp]: "handler_event (Log ERROR (handler_record user e))"
  by (simp add: handler_record_def)

lemma emits_mono: "emits P m \<Longrightarrow> (\<And>ev. P ev \<Longrightarrow> Q ev) \<Longrightarrow> emits Q m"
  by (auto simp: emits_def list_all_iff)

lemma folder_event_Call [simp]: "folder_event (Call c r) = folder_call c"
  by (cases c) simp_all

lemma emits_process_mailbox_folder [simp]:
  "emits folder_event (process_mailbox_folder mail user folder cut_time)"
  unfolding process_mailbox_folder_def
  by (auto intro!: emits_pseq emits_pbind emits_exec emits_command
      emits_mono[OF emits_mark_loop mark_event_folder_event])

lemma folder_loop_events:
  "folder_loop mail user cutoff_config h = (t, r) \<Longrightarrow> list_all folder_event t"
proof -
  have "emits folder_event (folder_loop mail user cutoff_config)"
    by (rule emits_for_each) auto
  then show "folder_loop mail user cutoff_config h = (t, r) \<Longrightarrow> list_all folder_event t"
    by (rule emitsD)
qed

lemma folder_events_calls: "list_all folder_event t \<Longrightarrow> c \<in> set (calls t) \<Longrightarrow> folder_call c"
  by (induction t rule: calls.induct) auto

lemma folder_events_teardown: "list_all folder_event t \<Longrightarrow> teardown_calls t = []"
  by (induction t rule: calls.induct) auto

lemma folder_events_handler: "list_all folder_event t \<Longrightarrow> \<not> list_ex handler_event t"
  by (induction t) (auto elim!: handler_event.elims(2))

lemma mark_events_selects: "list_all mark_event t \<Longrightarrow> selects t = []"
  by (induction t rule: selects.induct) simp_all

lemma process_mailbox_folder_selects:
  assumes "process_mailbox_folder mail user folder cut_time h = (t, r)"
  shows "selects t = [folder]"
  using assms
  by (cases rule: process_mailbox_folder_cases)
    (auto dest!: mark_loop_events mark_events_selects)

lemma for_each_raised:
  "for_each body xs h = (t, Inl e) \<Longrightarrow>
   \<exists>ys x zs t1 t2. xs = ys @ x # zs \<and> for_each body ys h = (t1, Inr ()) \<and>
     body x (h @ t1) = (t2, Inl e) \<and> t = t1 @ t2"
proof (induction xs arbitrary: h t)
  case Nil
  then show ?case by (simp add: return_def)
next
  case (Cons x xs)
  from Cons.prems show ?case
  proof (cases rule: for_each_Cons_cases)
    case (raised e')
    then show ?thesis
      by (intro exI[of _ "[]"] exI[of _ x] exI[of _ xs] exI[of _ t]) (simp add: return_def)
  next
    case (returned t1 t2)
    from Cons.IH[OF returned(2)] obtain ys y zs u1 u2 where xs: "xs = ys @ y # zs"
      and ys: "for_each body ys (h @ t1) = (u1, Inr ())"
      and y: "body y ((h @ t1) @ u1) = (u2, Inl e)" and t2: "t2 = u1 @ u2" by blast
    from returned(1) ys have "for_each body (x # ys) h = (t1 @ u1, Inr ())"
      by (simp add: pseq_def pbind_def)
    with xs y t2 returned(3) show ?thesis
      by (intro exI[of _ "x # ys"] exI[of _ y] exI[of _ zs] exI[of _ "t1 @ u1"] exI[of _ u2])
        simp
  qed
qed

lemma folder_loop_selects_done:
  "folder_loop mail user cutoff_config h = (t, Inr ()) \<Longrightarrow> selects t = map fst cutoff_config"
proof (induction cutoff_config arbitrary: h t)
  case Nil
  then show ?case by (simp add: return_def)
next
  case (Cons p ps)
  from Cons.prems show ?case
  proof (cases rule: for_each_Cons_cases)
    case (returned t1 t2)
    from returned(1) have "selects t1 = [fst p]"
      by (cases p) (auto dest: process_mailbox_folder_selects)
    with Cons.IH[OF returned(2)] returned(3) show ?thesis by simp
  qed simp
qed

lemma folder_loop_selects_raised:
  assumes "folder_loop mail user cutoff_config h = (t, Inl e)"
  shows "\<exists>k < length cutoff_config. selects t = take (Suc k) (map fst cutoff_config)"
proof -
  from for_each_raised[OF assms] obtain ys x zs t1 t2 where cfg: "cutoff_config = ys @ x # zs"
    and ys: "folder_loop mail user ys h = (t1, Inr ())"
    and x: "(case x of (fld, cut_time) \<Rightarrow> process_mailbox_folder mail user fld cut_time) (h @ t1)
              = (t2, Inl e)"
    and t: "t = t1 @ t2" by blast
  from x have "selects t2 = [fst x]"
    by (cases x) (auto dest: process_mailbox_folder_selects)
  with folder_loop_selects_done[OF ys] t cfg show ?thesis
    by (intro exI[of _ "length ys"]) simp
qed

lemma connect_mailbox_cases [consumes 1, case_names no_host connect_raised no_user connected]:
  assumes "connect_mailbox mail mbox_config h = (t, r)"
  obtains
    (no_host) "mbox_config ''imap'' = None" "t = []" "r = Inl (KeyError ''imap'')"
  | (connect_raised) host e where "mbox_config ''imap'' = Some host"
      "t = [Call (Connect host) (Raised e)]" "r = Inl e"
  | (no_user) host ty dat where "mbox_config ''imap'' = Some host"
      "mbox_config ''username'' = None"
      "t = [Call (Connect host) (Returned ty dat)]" "r = Inl (KeyError ''username'')"
  | (connected) host ty dat user where "mbox_config ''imap'' = Some host"
      "mbox_config ''username'' = Some user"
      "t = [Call (Connect host) (Returned ty dat)]" "r = Inr user"
proof (cases "mbox_config ''imap''")
  case None
  with assms show thesis
    by (intro no_host) (auto simp: connect_mailbox_def subscript_def pbind_lift)
next
  case (Some host)
  show thesis
  proof (cases "mail h (Connect host)")
    case (Raised e)
    with assms Some show thesis
      by (intro connect_raised[of host e])
        (auto simp: connect_mailbox_def subscript_def pseq_def pbind_def command_def lift_def)
  next
    case (Returned ty dat)
    show thesis
    proof (cases "mbox_config ''username''")
      case None
      with assms Some Returned show thesis
        by (intro no_user[of host ty dat])
          (auto simp: connect_mailbox_def subscript_def pseq_def pbind_def command_def lift_def)
    next
      case user: (Some user)
      with assms Some Returned show thesis
        by (intro connected[of host user ty dat])
          (auto simp: connect_mailbox_def subscript_def pseq_def pbind_def command_def lift_def)
    qed
  qed
qed

lemma process_session_cases [consumes 1, case_names no_password login_raised folders_raised
    close_raised logout_raised finished]:
  assumes "process_session mail user mbox_config cutoff_config h = (t, r)"
  obtains
    (no_password) "mbox_config ''password'' = None" "t = []" "r = Inl (KeyError ''password'')"
  | (login_raised) password e where "mbox_config ''password'' = Some password"
      "t = [Call (Login user password) (Raised e)]" "r = Inl e"
  | (folders_raised) password ty dat tf e where "mbox_config ''password'' = Some password"
      "folder_loop mail user cutoff_config (h @ [Call (Login user password) (Returned ty dat)])
         = (tf, Inl e)"
      "t = Call (Login user password) (Returned ty dat) # tf" "r = Inl e"
  | (close_raised) password ty dat tf e where "mbox_config ''password'' = Some password"
      "folder_loop mail user cutoff_config (h @ [Call (Login user password) (Returned ty dat)])
         = (tf, Inr ())"
      "t = Call (Login user password) (Returned ty dat) # tf @ [Call Close (Raised e)]"
      "r = Inl e"
  | (logout_raised) password ty dat tf tyc datc e where
      "mbox_config ''password'' = Some password"
      "folder_loop mail user cutoff_config (h @ [Call (Login user password) (Returned ty dat)])
         = (tf, Inr ())"
      "t = Call (Login user password) (Returned ty dat) # tf @
           [Call Close (Returned tyc datc), Call Logout (Raised e)]"
      "r = Inl e"
  | (finished) password ty dat tf tyc datc tyl datl where
      "mbox_config ''password'' = Some password"
      "folder_loop mail user cutoff_config (h @ [Call (Login user password) (Returned ty dat)])
         = (tf, Inr ())"
      "t = Call (Login user password) (Returned ty dat) # tf @
           [Call Close (Returned tyc datc), Call Logout (Returned tyl datl)]"
      "r = Inr ()"
proof (cases "mbox_config ''password''")
  case None
  with assms show thesis
    by (intro no_password) (auto simp: process_session_def subscript_def pbind_lift)
next
  case (Some password)
  with assms have run: "pseq (exec mail (Login user password))
      (pseq (folder_loop mail user cutoff_config) (pseq (exec mail Close) (exec mail Logout))) h
      = (t, r)"
    by (simp add: process_session_def subscript_def pbind_lift)
  then show thesis
  proof (cases rule: pseq_cases)
    case (raised e)
    with Some show ?thesis
      by (intro login_raised[of password e]) (auto simp: exec_run split: reply.splits)
  next
    case login: (returned t1 x t2)
    from login(1) obtain ty dat where t1: "t1 = [Call (Login user password) (Returned ty dat)]"
      by (auto simp: exec_run split: reply.splits)
    from login(2) show ?thesis
    proof (cases rule: pseq_cases)
      case (raised e)
      with Some t1 login(3) show ?thesis
        by (intro folders_raised[of password ty dat t2 e]) simp_all
    next
      case loop: (returned tf u t3)
      from loop(2) show ?thesis
      proof (cases rule: pseq_cases)
        case (raised e)
        then have "t3 = [Call Close (Raised e)]"
          by (auto simp: exec_run split: reply.splits)
        with Some t1 login(3) loop(1,3) raised show ?thesis
          by (intro close_raised[of password ty dat tf e]) simp_all
      next
        case close: (returned t4 v t5)
        from close(1) obtain tyc datc where t4: "t4 = [Call Close (Returned tyc datc)]"
          by (auto simp: exec_run split: reply.splits)
        show ?thesis
        proof (cases r)
          case (Inl e)
          with close(2) have "t5 = [Call Logout (Raised e)]"
            by (auto simp: exec_run split: reply.splits)
          with Some t1 login(3) loop(1,3) close(3) t4 Inl show ?thesis
            by (intro logout_raised[of password ty dat tf tyc datc e]) simp_all
        next
          case (Inr u')
          with close(2) obtain tyl datl where "t5 = [Call Logout (Returned tyl datl)]"
            by (auto simp: exec_run split: reply.splits)
          with Some t1 login(3) loop(1,3) close(3) t4 Inr show ?thesis
            by (intro finished[of password ty dat tf tyc datc tyl datl]) simp_all
        qed
      qed
    qed
  qed
qed

lemma process_mailbox_cases [consumes 1, case_names unbound caught completed]:
  assumes "process_mailbox mail mbox_config cutoff_config h = (t, r)"
  obtains
    (unbound) e where "connect_mailbox mail mbox_config h = (t, Inl e)"
      "r = Inl (UnboundLocalError ''user'')"
  | (caught) user t0 t1 e where "connect_mailbox mail mbox_config h = (t0, Inr user)"
      "process_session mail user mbox_config cutoff_config (h @ t0) = (t1, Inl e)"
      "t = t0 @ t1 @ [Log ERROR (handler_record user e)]" "r = Inr ()"
  | (completed) user t0 t1 where "connect_mailbox mail mbox_config h = (t0, Inr user)"
      "process_session mail user mbox_config cutoff_config (h @ t0) = (t1, Inr ())"
      "t = t0 @ t1" "r = Inr ()"
proof -
  obtain t0 r0 where c: "connect_mailbox mail mbox_config h = (t0, r0)"
    by (cases "connect_mailbox mail mbox_config h")
  show thesis
  proof (cases r0)
    case (Inl e)
    with assms c show thesis by (intro unbound[of e]) (simp_all add: process_mailbox_def)
  next
    case (Inr user)
    obtain t1 r1 where s: "process_session mail user mbox_config cutoff_config (h @ t0) = (t1, r1)"
      by (cases "process_session mail user mbox_config cutoff_config (h @ t0)")
    show thesis
    proof (cases r1)
      case (Inl e)
      with assms c s Inr show thesis
        by (intro caught[of t0 user t1 e]) (simp_all add: process_mailbox_def)
    next
      case r1: (Inr u)
      with assms c s Inr show thesis
        by (intro completed[of t0 user t1]) (simp_all add: process_mailbox_def)
    qed
  qed
qed

lemma pseq_Inl: "m h = (t, Inl e) \<Longrightarrow> pseq m n h = (t, Inl e)"
  by (simp add: pseq_def pbind_def)

lemma pseq_Inr: "m h = (t, Inr x) \<Longrightarrow> pseq m n h = (t @ fst (n (h @ t)), snd (n (h @ t)))"
  by (simp add: pseq_def pbind_def split: prod.splits)

lemma clean_not_raised: "clean t \<Longrightarrow> Call c (Raised e) \<notin> set t"
  by (auto simp: clean_def list_all_iff)

lemma terminal_append: "clean t0 \<Longrightarrow> terminal (t, r) \<Longrightarrow> terminal (t0 @ t, r)"
  by (auto simp: terminal_def intro: exI[where x = "t0 @ pre" for pre])

lemma folder_loop_clean: "folder_loop mail user cutoff_config h = (t, Inr ()) \<Longrightarrow> clean t"
  by (rule terminal_Inr, rule wellD[rotated], assumption, rule well_for_each) auto

lemma mark_loop_clean:
  assumes "for_each (mark_message mail user folder n) ps h = (t, Inr ())"
  shows "clean t"
proof -
  have "well (for_each (mark_message mail user folder n) ps)"
    by (rule well_for_each) simp
  from terminal_Inr[OF wellD[OF this assms]] show ?thesis .
qed

lemma process_mailbox_folder_store_raised:
  assumes "process_mailbox_folder mail user folder cut_time h = (t, r)"
    and "Call (Store num) (Raised e) \<in> set t"
  shows "\<exists>rs after. t = Call (Select folder) rs # after \<and>
           Call (Store num) (Raised e) \<in> set after \<and>
           Expunge \<notin> set (calls after) \<and> selects after = []"
  using assms(1)
proof (cases rule: process_mailbox_folder_cases)
  case (marks_raised ty dat messages msgs tm e')
  from marks_raised(3) have "list_all mark_event tm" by (rule mark_loop_events)
  then have "Expunge \<notin> set (calls tm)" and "selects tm = []"
    by (auto dest: mark_events_not_expunge mark_events_selects)
  with marks_raised(4) assms(2) show ?thesis by auto
next
  case (marks_done ty dat messages msgs tm rx)
  from marks_done(3) have "clean tm" by (rule mark_loop_clean)
  then have "Call (Store num) (Raised e) \<notin> set tm" by (rule clean_not_raised)
  with marks_done(4) assms(2) show ?thesis by auto
qed (use assms(2) in auto)

lemma folder_loop_store_raised:
  assumes "folder_loop mail user cutoff_config h = (t, Inl e')"
    and "Call (Store num) (Raised e) \<in> set t"
  shows "\<exists>before folder rs after. t = before @ Call (Select folder) rs # after \<and>
           Call (Store num) (Raised e) \<in> set after \<and>
           Expunge \<notin> set (calls after) \<and> selects after = []"
proof -
  from for_each_raised[OF assms(1)] obtain ys x t1 t2 where
    ys: "folder_loop mail user ys h = (t1, Inr ())"
    and x: "(case x of (fld, cut_time) \<Rightarrow> process_mailbox_folder mail user fld cut_time) (h @ t1)
              = (t2, Inl e')"
    and t: "t = t1 @ t2" by blast
  from folder_loop_clean[OF ys] have "Call (Store num) (Raised e) \<notin> set t1"
    by (rule clean_not_raised)
  with assms(2) t have mem: "Call (Store num) (Raised e) \<in> set t2" by simp
  obtain fld cut_time where "x = (fld, cut_time)" by (cases x)
  with x have "process_mailbox_folder mail user fld cut_time (h @ t1) = (t2, Inl e')" by simp
  from process_mailbox_folder_store_raised[OF this mem] t show ?thesis
    by blast
qed

lemma process_mailbox_login_raised:
  assumes "mbox_config ''imap'' = Some host" and "mbox_config ''username'' = Some user"
    and "mbox_config ''password'' = Some password"
    and "mail h (Connect host) = Returned ty dat"
    and "mail (h @ [Call (Connect host) (Returned ty dat)]) (Login user password) = Raised e"
  shows "process_mailbox mail mbox_config cutoff_config h =
     ([Call (Connect host) (Returned ty dat), Call (Login user password) (Raised e),
       Log ERROR (handler_record user e)], Inr ())"
  using assms
  by (simp add: process_mailbox_def connect_mailbox_def process_session_def subscript_def
      pseq_def pbind_def command_def lift_def exec_def)

lemmas account_defs = process_mailbox_def connect_mailbox_def process_session_def subscript_def
  handler_record_def example_account_def down_account_def locked_account_def
  incomplete_account_def main_def

lemma missing_run:
  "process_mailbox example_server example_account [(''Missing'', 24), (''INBOX'', 24)] [] =
     ([Call (Connect ''imap.example.org'') (Returned ''OK'' []),
       Call (Login ''alice'' ''secret'') (Returned ''OK'' []),
       Call (Select ''Missing'') (Returned ''NO'' [Bytes ''no such mailbox'']),
       Log INFO (Search_for_messages_older ''alice'' ''Missing'' 24),
       Call (Search (OLDER 86400))
         (Raised (IMAP4_error ''command SEARCH illegal in state AUTH'')),
       Log ERROR (IMAP_error ''alice''
         (IMAP4_error ''command SEARCH illegal in state AUTH''))],
      Inr ())"
  by (simp add: account_defs run_defs)

lemma drafts_account_run:
  "process_mailbox example_server example_account [(''Drafts'', 24)] [] =
     ([Call (Connect ''imap.example.org'') (Returned ''OK'' []),
       Call (Login ''alice'' ''secret'') (Returned ''OK'' []),
       Call (Select ''Drafts'') (Returned ''OK'' [Bytes ''3'']),
       Log INFO (Search_for_messages_older ''alice'' ''Drafts'' 24),
       Call (Search (OLDER 86400)) (Returned ''OK'' [Bytes ''7 8 9'']),
       Call (Fetch ''7'') (Raised (IMAP4_error ''FETCH command error'')),
       Log ERROR (IMAP_error ''alice'' (IMAP4_error ''FETCH command error''))],
      Inr ())"
  by (simp add: account_defs run_defs)

lemma sent_run:
  "process_mailbox example_server example_account [(''Sent'', 24), (''INBOX'', 24)] [] =
     ([Call (Connect ''imap.example.org'') (Returned ''OK'' []),
       Call (Login ''alice'' ''secret'') (Returned ''OK'' []),
       Call (Select ''Sent'') (Returned ''OK'' [Bytes ''3'']),
       Log INFO (Search_for_messages_older ''alice'' ''Sent'' 24),
       Call (Search (OLDER 86400)) (Returned ''OK'' [Bytes ''4 5 6'']),
       Call (Fetch ''4'') (Returned ''OK''
         [Tuple ''4 (RFC822 {42}'' (Rfc822 (Message (Some ''Mon, 2 Nov 2026 10:00:00 +0000''))),
          Bytes '')'']),
       Log INFO (Add_delete_mark_dated ''alice'' ''Sent'' ''4''
         (Some ''Mon, 2 Nov 2026 10:00:00 +0000'')),
       Call (Store ''4'') (Returned ''OK'' []),
       Log INFO (Add_delete_mark ''alice'' ''Sent'' ''5''),
       Call (Store ''5'') (Raised (IMAP4_error ''STORE command error'')),
       Log ERROR (IMAP_error ''alice'' (IMAP4_error ''STORE command error''))],
      Inr ())"
  by (simp add: account_defs run_defs)

lemma spam_account_run:
  "process_mailbox example_server example_account [(''Spam'', 1)] [] =
     ([Call (Connect ''imap.example.org'') (Returned ''OK'' []),
       Call (Login ''alice'' ''secret'') (Returned ''OK'' []),
       Call (Select ''Spam'') (Returned ''OK'' [Bytes ''3'']),
       Log INFO (Search_for_messages_older ''alice'' ''Spam'' 1),
       Call (Search (OLDER 3600)) (Returned ''OK'' [Bytes []]),
       Log INFO (Delete_all_marked ''alice'' ''Spam''),
       Call Expunge (Returned ''OK'' []),
       Call Close (Returned ''OK'' []),
       Call Logout (Returned ''BYE'' [])],
      Inr ())"
  by (simp add: account_defs run_defs)

lemma down_run:
  "process_mailbox example_server down_account [(''Spam'', 1)] [] =
     ([Call (Connect ''down.example.org'') (Raised (OSError ''Connection refused''))],
      Inl (UnboundLocalError ''user''))"
  by (simp add: account_defs run_defs)

lemma incomplete_run:
  "process_mailbox example_server incomplete_account [(''Spam'', 1)] [] =
     ([Call (Connect ''imap.example.org'') (Returned ''OK'' []),
       Log ERROR (Error_processing_mailbox ''dave'' (KeyError ''password''))],
      Inr ())"
  by (simp add: account_defs run_defs)

lemma alice_after_carol_run:
  "process_mailbox example_server example_account [(''Spam'', 1)]
     [Log INFO Start_mail_cleaner,
      Call (Connect ''imap.example.org'') (Returned ''OK'' []),
      Call (Login ''carol'' ''wrong'') (Raised (IMAP4_error ''AUTHENTICATIONFAILED'')),
      Log ERROR (IMAP_error ''carol'' (IMAP4_error ''AUTHENTICATIONFAILED''))] =
     ([Call (Connect ''imap.example.org'') (Returned ''OK'' []),
       Call (Login ''alice'' ''secret'') (Returned ''OK'' []),
       Call (Select ''Spam'') (Returned ''OK'' [Bytes ''3'']),
       Log INFO (Search_for_messages_older ''alice'' ''Spam'' 1),
       Call (Search (OLDER 3600)) (Returned ''OK'' [Bytes []]),
       Log INFO (Delete_all_marked ''alice'' ''Spam''),
       Call Expunge (Returned ''OK'' []),
       Call Close (Returned ''OK'' []),
       Call Logout (Returned ''BYE'' [])],
      Inr ())"
  by (simp add: account_defs run_defs)

section \<open>The claims about one folder\<close>

text \<open>
  C9. Whatever the threshold \<open>cut_time\<close> in hours (non-negative or not), the only search
  that \<open>process_mailbox_folder\<close> issues carries the age \<open>cut_time * 3600\<close> seconds, and it
  issues that search whenever selecting the folder does not raise.
\<close>

theorem search_age_argument:
  "searches (fst (process_mailbox_folder mail user folder cut_time h)) =
     (case mail h (Select folder) of
        Raised e \<Rightarrow> []
      | Returned typ dat \<Rightarrow> [OLDER (cut_time * 3600)])"
proof -
  obtain t r where run: "process_mailbox_folder mail user folder cut_time h = (t, r)"
    by (cases "process_mailbox_folder mail user folder cut_time h")
  from run have "searches t =
     (case mail h (Select folder) of
        Raised e \<Rightarrow> []
      | Returned typ dat \<Rightarrow> [OLDER (cut_time * 3600)])"
    by (cases rule: process_mailbox_folder_cases)
      (auto dest!: mark_loop_events mark_events_searches)
  with run show ?thesis by simp
qed

theorem search_age_argument_witness:
  "searches (fst (process_mailbox_folder example_server ''alice'' ''INBOX'' 24 [])) = [OLDER 86400]"
  using search_age_argument[of example_server "''alice''" "''INBOX''" 24 "[]"]
  by (simp add: example_server_def)



text \<open>
  C8. When the search of a folder is answered \<^verbatim>\<open>OK\<close> with no message reference, no mark
  and no fetch is issued, and the expunge is still issued exactly once, as the last event
  of the reap.
\<close>

theorem empty_search_still_expunges:
  assumes "process_mailbox_folder mail user folder cut_time h = (t, r)"
    and "Call (Search q) (Returned ''OK'' (Bytes s # others)) \<in> set t"
    and "bytes_split s = []"
  shows "stores t = [] \<and> fetches t = [] \<and> count_list (calls t) Expunge = 1 \<and>
         (\<exists>rx. last t = Call Expunge rx)"
  using assms(1)
proof (cases rule: process_mailbox_folder_cases)
  case (marks_raised ty dat messages msgs tm e)
  from marks_raised(3) have "Call (Search q) (Returned ''OK'' (Bytes s # others)) \<notin> set tm"
    by (intro mark_events_not_search) (rule mark_loop_events)
  with assms(2) marks_raised(4) have "messages = Bytes s # others" by auto
  with marks_raised(2) assms(3) have "msgs = []" by (auto dest: first_split_Inr)
  with marks_raised(3) show ?thesis by (simp add: return_def)
next
  case (marks_done ty dat messages msgs tm rx)
  from marks_done(3) have "Call (Search q) (Returned ''OK'' (Bytes s # others)) \<notin> set tm"
    by (intro mark_events_not_search) (rule mark_loop_events)
  with assms(2) marks_done(4) have "messages = Bytes s # others" by auto
  with marks_done(2) assms(3) have "msgs = []" by (auto dest: first_split_Inr)
  with marks_done(3) have "tm = []" by (simp add: return_def)
  with marks_done(4) show ?thesis by simp
next
  case (split_raised ty dat messages e)
  with assms(2) show ?thesis by (auto simp: first_split_def)
qed (use assms(2) in auto)

theorem empty_search_still_expunges_witness:
  "Call (Search (OLDER 3600)) (Returned ''OK'' [Bytes []])
     \<in> set (fst (process_mailbox_folder example_server ''alice'' ''Spam'' 1 [])) \<and>
   bytes_split [] = [] \<and>
   stores (fst (process_mailbox_folder example_server ''alice'' ''Spam'' 1 [])) = [] \<and>
   fetches (fst (process_mailbox_folder example_server ''alice'' ''Spam'' 1 [])) = [] \<and>
   count_list (calls (fst (process_mailbox_folder example_server ''alice'' ''Spam'' 1 []))) Expunge = 1"
proof -
  have "Call (Search (OLDER 3600)) (Returned ''OK'' [Bytes []])
      \<in> set (fst (process_mailbox_folder example_server ''alice'' ''Spam'' 1 []))"
    by (simp add: spam_run)
  moreover have "bytes_split [] = []" by (simp add: bytes_split_def)
  ultimately show ?thesis
    using empty_search_still_expunges[OF spam_run, of "OLDER 3600" "[]" "[]"]
    by (simp add: spam_run)
qed

text \<open>
  C4, as stated, fails: the expunge of lines 48 and 49 stands after the \<^verbatim>\<open>if\<close>, not
  inside it, so a folder whose search is answered \<^verbatim>\<open>NO\<close> is expunged all the same.
\<close>

theorem failed_search_counterexample:
  "fst (process_mailbox_folder example_server ''alice'' ''Archive'' 24 []) =
     [Call (Select ''Archive'') (Returned ''OK'' [Bytes ''3'']),
      Log INFO (Search_for_messages_older ''alice'' ''Archive'' 24),
      Call (Search (OLDER 86400)) (Returned ''NO'' [Bytes ''search failed'']),
      Log ERROR (Failed_to_search ''alice'' ''Archive'' ''NO''),
      Log INFO (Delete_all_marked ''alice'' ''Archive''),
      Call Expunge (Returned ''OK'' [])] \<and>
   count_list (calls (fst (process_mailbox_folder example_server ''alice'' ''Archive'' 24 [])))
     Expunge = 1"
  by (simp add: archive_run)

text \<open>
  C4, amended. When the search of a folder is answered with a status other than \<^verbatim>\<open>OK\<close>,
  an error record naming the account, the folder and the status is logged, no message is
  fetched or marked, the expunge is still issued exactly once, and, unless that expunge
  raises, the folder loop goes on with the folders that follow.
\<close>

theorem failed_search_skips_marks_not_expunge:
  assumes "process_mailbox_folder mail user folder cut_time h = (t, r)"
    and "Call (Search q) (Returned status dat) \<in> set t"
    and "status \<noteq> ''OK''"
  shows "(\<exists>rs rx.
            t = [Call (Select folder) rs,
                 Log INFO (Search_for_messages_older user folder cut_time),
                 Call (Search (OLDER (cut_time * 3600))) (Returned status dat),
                 Log ERROR (Failed_to_search user folder status),
                 Log INFO (Delete_all_marked user folder),
                 Call Expunge rx] \<and>
            r = reply_result rx) \<and>
         stores t = [] \<and> fetches t = [] \<and> count_list (calls t) Expunge = 1 \<and>
         (r = Inr () \<longrightarrow>
            for_each (\<lambda>(fld, cut_time). process_mailbox_folder mail user fld cut_time)
              ((folder, cut_time) # folders) h =
            (t @ fst (for_each (\<lambda>(fld, cut_time). process_mailbox_folder mail user fld cut_time)
                        folders (h @ t)),
             snd (for_each (\<lambda>(fld, cut_time). process_mailbox_folder mail user fld cut_time)
                        folders (h @ t))))"
  using assms(1)
proof (cases rule: process_mailbox_folder_cases)
  case (search_failed ty dat' status' messages rx)
  with assms(2) have "status' = status \<and> messages = dat" by auto
  with search_failed assms(1) show ?thesis
    by (auto simp: pseq_def pbind_def split: prod.splits)
next
  case (marks_raised ty dat' messages msgs tm e)
  from marks_raised(3) have "Call (Search q) (Returned status dat) \<notin> set tm"
    by (intro mark_events_not_search) (rule mark_loop_events)
  with assms(2,3) marks_raised(4) show ?thesis by auto
next
  case (marks_done ty dat' messages msgs tm rx)
  from marks_done(3) have "Call (Search q) (Returned status dat) \<notin> set tm"
    by (intro mark_events_not_search) (rule mark_loop_events)
  with assms(2,3) marks_done(4) show ?thesis by auto
qed (use assms(2,3) in auto)

theorem failed_search_skips_marks_not_expunge_witness:
  "Call (Search (OLDER 86400)) (Returned ''NO'' [Bytes ''search failed''])
     \<in> set (fst (process_mailbox_folder example_server ''alice'' ''Archive'' 24 [])) \<and>
   ''NO'' \<noteq> ''OK'' \<and>
   stores (fst (process_mailbox_folder example_server ''alice'' ''Archive'' 24 [])) = [] \<and>
   count_list (calls (fst (process_mailbox_folder example_server ''alice'' ''Archive'' 24 []))) Expunge = 1 \<and>
   snd (process_mailbox_folder example_server ''alice'' ''Archive'' 24 []) = Inr () \<and>
   fst (for_each (\<lambda>(fld, cut_time). process_mailbox_folder example_server ''alice'' fld cut_time)
          [(''Archive'', 24), (''Spam'', 1)] []) =
     fst (process_mailbox_folder example_server ''alice'' ''Archive'' 24 []) @
     fst (for_each (\<lambda>(fld, cut_time). process_mailbox_folder example_server ''alice'' fld cut_time)
          [(''Spam'', 1)] (fst (process_mailbox_folder example_server ''alice'' ''Archive'' 24 [])))"
proof -
  have "Call (Search (OLDER 86400)) (Returned ''NO'' [Bytes ''search failed''])
      \<in> set (fst (process_mailbox_folder example_server ''alice'' ''Archive'' 24 []))"
    by (simp add: archive_run)
  moreover have "''NO'' \<noteq> ''OK''" by simp
  ultimately show ?thesis
    using failed_search_skips_marks_not_expunge[OF archive_run,
        of "OLDER 86400" "''NO''" "[Bytes ''search failed'']" "[(''Spam'', 1)]"]
    by (simp add: archive_run)
qed

text \<open>
  C5, as stated, fails: nothing catches an exception of \<^verbatim>\<open>fetch\<close>. Fetching the first
  message of \<open>Drafts\<close> fails, and the reap ends there: no message is marked and no expunge
  is issued.
\<close>

theorem fetch_failure_counterexample:
  "fst (process_mailbox_folder example_server ''alice'' ''Drafts'' 24 []) =
     [Call (Select ''Drafts'') (Returned ''OK'' [Bytes ''3'']),
      Log INFO (Search_for_messages_older ''alice'' ''Drafts'' 24),
      Call (Search (OLDER 86400)) (Returned ''OK'' [Bytes ''7 8 9'']),
      Call (Fetch ''7'') (Raised (IMAP4_error ''FETCH command error''))] \<and>
   stores (fst (process_mailbox_folder example_server ''alice'' ''Drafts'' 24 [])) = [] \<and>
   Expunge \<notin> set (calls (fst (process_mailbox_folder example_server ''alice'' ''Drafts'' 24 [])))"
  by (simp add: drafts_run)

text \<open>
  C5, amended. When the fetch of a boundary message raises, the exception leaves
  \<open>process_mailbox_folder\<close> at once: the failing fetch is the last event of the reap, the
  marks issued are those of the references before the failing one only, and no expunge is
  issued for the folder.
\<close>

theorem fetch_exception_stops_folder:
  assumes "process_mailbox_folder mail user folder cut_time h = (t, r)"
    and "Call (Fetch num) (Raised e) \<in> set t"
  shows "r = Inl e \<and> (\<exists>pre. t = pre @ [Call (Fetch num) (Raised e)]) \<and>
         Expunge \<notin> set (calls t) \<and>
         (\<exists>q s others k.
            Call (Search q) (Returned ''OK'' (Bytes s # others)) \<in> set t \<and>
            k < length (bytes_split s) \<and> bytes_split s ! k = num \<and>
            (k = 0 \<or> k = length (bytes_split s) - 1) \<and>
            stores t = take k (bytes_split s))"
proof -
  from assms(2) obtain pre post where t: "t = pre @ Call (Fetch num) (Raised e) # post"
    by (auto dest: split_list)
  have "terminal (t, r)"
    by (rule wellD[OF well_process_mailbox_folder assms(1)])
  from terminal_raised[OF this t] t have last: "t = pre @ [Call (Fetch num) (Raised e)]"
    and r: "r = Inl e" and pre: "clean pre" by simp_all
  from assms(1) show ?thesis
  proof (cases rule: process_mailbox_folder_cases)
    case (marks_raised ty dat messages msgs tm e')
    from marks_raised(4) assms(2) have mem: "Call (Fetch num) (Raised e) \<in> set tm" by auto
    from mark_loop_fetch_raised[OF marks_raised(3) mem] obtain k where k: "k < length msgs"
      and st: "stores tm = map snd (take k (enumerate 0 msgs))"
      and num: "enumerate 0 msgs ! k = (fst (enumerate 0 msgs ! k), num)"
      and bd: "fst (enumerate 0 msgs ! k) = 0 \<or> int (fst (enumerate 0 msgs ! k)) = int (length msgs) - 1"
      by auto
    from marks_raised(2) obtain s others where m: "messages = Bytes s # others"
      and msgs: "msgs = bytes_split s" by (auto dest: first_split_Inr)
    from k num have "msgs ! k = num" by (simp add: nth_enumerate_eq)
    moreover from k bd have "k = 0 \<or> k = length msgs - 1" by (auto simp: nth_enumerate_eq)
    moreover from st have "stores tm = take k msgs"
      by (simp add: take_map[symmetric])
    moreover have "Expunge \<notin> set (calls tm)"
      using marks_raised(3) by (intro mark_events_not_expunge) (rule mark_loop_events)
    ultimately show ?thesis
      using k m msgs marks_raised(4) last r
      by (intro conjI exI[of _ "OLDER (cut_time * 60 * 60)"] exI[of _ s] exI[of _ others]
          exI[of _ k] exI[of _ pre]) auto
  next
    case (marks_done ty dat messages msgs tm rx)
    with last show ?thesis by auto
  qed (use last in auto)
qed

theorem fetch_exception_stops_folder_witness:
  "Call (Fetch ''7'') (Raised (IMAP4_error ''FETCH command error''))
     \<in> set (fst (process_mailbox_folder example_server ''alice'' ''Drafts'' 24 [])) \<and>
   snd (process_mailbox_folder example_server ''alice'' ''Drafts'' 24 []) =
     Inl (IMAP4_error ''FETCH command error'') \<and>
   Expunge \<notin> set (calls (fst (process_mailbox_folder example_server ''alice'' ''Drafts'' 24 [])))"
proof -
  have "Call (Fetch ''7'') (Raised (IMAP4_error ''FETCH command error''))
      \<in> set (fst (process_mailbox_folder example_server ''alice'' ''Drafts'' 24 []))"
    by (simp add: drafts_run)
  with fetch_exception_stops_folder[OF drafts_run, of "''7''" "IMAP4_error ''FETCH command error''"]
  show ?thesis by (simp add: drafts_run)
qed

section \<open>The claims about one account and about the whole run\<close>

text \<open>
  C1, as stated, fails: nothing in the folder loop of \<open>process_mailbox\<close> catches an
  exception. The folder \<open>Missing\<close> cannot be selected, the search that follows raises, the
  handler of the account logs it, and \<open>INBOX\<close>, configured after it, is never selected.
\<close>

theorem select_failure_counterexample:
  "fst (process_mailbox example_server example_account [(''Missing'', 24), (''INBOX'', 24)] []) =
     [Call (Connect ''imap.example.org'') (Returned ''OK'' []),
      Call (Login ''alice'' ''secret'') (Returned ''OK'' []),
      Call (Select ''Missing'') (Returned ''NO'' [Bytes ''no such mailbox'']),
      Log INFO (Search_for_messages_older ''alice'' ''Missing'' 24),
      Call (Search (OLDER 86400))
        (Raised (IMAP4_error ''command SEARCH illegal in state AUTH'')),
      Log ERROR (IMAP_error ''alice''
        (IMAP4_error ''command SEARCH illegal in state AUTH''))] \<and>
   selects (fst (process_mailbox example_server example_account
     [(''Missing'', 24), (''INBOX'', 24)] [])) = [''Missing'']"
  by (simp add: missing_run)

text \<open>
  C1, amended. When a call made while reaping a folder (select, search, fetch, store or
  expunge) raises, the exception is caught by the handler of the account, which logs it
  once, and the folder loop is aborted there: nothing follows the failing call but that
  record, and the folders selected are an initial segment of the configured ones, so the
  folders after the failing one are not attempted.
\<close>

theorem folder_exception_aborts_folder_loop:
  assumes run: "process_mailbox mail mbox_config cutoff_config h = (t, r)"
    and t: "t = pre @ Call c (Raised e) # post"
    and c: "folder_call c"
  shows "r = Inr () \<and>
         (\<exists>user. mbox_config ''username'' = Some user \<and>
            post = [Log ERROR (handler_record user e)]) \<and>
         (\<exists>k < length cutoff_config. selects t = take (Suc k) (map fst cutoff_config))"
  using run
proof (cases rule: process_mailbox_cases)
  case (unbound e')
  from unbound(1) t c show ?thesis
    by (cases rule: connect_mailbox_cases) (auto simp: Cons_eq_append_conv)
next
  case (completed user t0 t1)
  from completed(1) have "clean t0" by (cases rule: connect_mailbox_cases) auto
  moreover have "clean t1"
    by (rule terminal_Inr[OF wellD[OF well_process_session completed(2)]])
  ultimately have "clean t" using completed(3) by simp
  with t show ?thesis by simp
next
  case (caught user t0 t1 e')
  from caught(1) obtain host ty dat where user: "mbox_config ''username'' = Some user"
    and t0: "t0 = [Call (Connect host) (Returned ty dat)]"
    by (cases rule: connect_mailbox_cases) auto
  have tm: "terminal (t0 @ t1, Inl e' :: exn + unit)"
    by (rule terminal_append[OF _ wellD[OF well_process_session caught(2)]]) (simp add: t0)
  from t caught(3) have eq: "pre @ Call c (Raised e) # post =
      (t0 @ t1) @ [Log ERROR (handler_record user e')]" by simp
  obtain post' where post: "post = post' @ [Log ERROR (handler_record user e')]"
    and body: "t0 @ t1 = pre @ Call c (Raised e) # post'"
    using eq by (cases post rule: rev_cases) auto
  from terminal_raised[OF tm body] have post': "post' = []" and e': "e' = e" by simp_all
  from body post' t0 have mem: "Call c (Raised e) \<in> set t1"
    by (cases pre) auto
  from caught(2) have "\<exists>k < length cutoff_config. selects t1 = take (Suc k) (map fst cutoff_config)"
  proof (cases rule: process_session_cases)
    case (folders_raised password ty' dat' tf e'')
    from folder_loop_selects_raised[OF folders_raised(2)] folders_raised(3) show ?thesis
      by simp
  next
    case (login_raised password e'')
    with mem c show ?thesis by auto
  next
    case (close_raised password ty' dat' tf e'')
    with mem c show ?thesis by (auto dest!: folder_loop_clean clean_not_raised)
  next
    case (logout_raised password ty' dat' tf tyc datc e'')
    with mem c show ?thesis by (auto dest!: folder_loop_clean clean_not_raised)
  qed (use mem in auto)
  with caught(3,4) user t0 post post' e' show ?thesis by simp
qed

theorem folder_exception_aborts_folder_loop_witness:
  "folder_call (Search (OLDER 86400)) \<and>
   snd (process_mailbox example_server example_account [(''Missing'', 24), (''INBOX'', 24)] [])
     = Inr () \<and>
   selects (fst (process_mailbox example_server example_account
     [(''Missing'', 24), (''INBOX'', 24)] [])) = [''Missing'']"
  using folder_exception_aborts_folder_loop[OF missing_run,
      of "[Call (Connect ''imap.example.org'') (Returned ''OK'' []),
           Call (Login ''alice'' ''secret'') (Returned ''OK'' []),
           Call (Select ''Missing'') (Returned ''NO'' [Bytes ''no such mailbox'']),
           Log INFO (Search_for_messages_older ''alice'' ''Missing'' 24)]"
         "Search (OLDER 86400)" "IMAP4_error ''command SEARCH illegal in state AUTH''"
         "[Log ERROR (IMAP_error ''alice''
             (IMAP4_error ''command SEARCH illegal in state AUTH''))]"]
  by (simp add: missing_run)

text \<open>
  C2, as stated, fails: \<^verbatim>\<open>close\<close> and \<^verbatim>\<open>logout\<close> are the last statements of the
  \<^verbatim>\<open>try\<close> body, not a \<^verbatim>\<open>finally\<close> clause. The account connects and logs in, the
  fetch in \<open>Drafts\<close> raises, and neither \<^verbatim>\<open>close\<close> nor \<^verbatim>\<open>logout\<close> is called.
\<close>

theorem teardown_skipped_counterexample:
  "fst (process_mailbox example_server example_account [(''Drafts'', 24)] []) =
     [Call (Connect ''imap.example.org'') (Returned ''OK'' []),
      Call (Login ''alice'' ''secret'') (Returned ''OK'' []),
      Call (Select ''Drafts'') (Returned ''OK'' [Bytes ''3'']),
      Log INFO (Search_for_messages_older ''alice'' ''Drafts'' 24),
      Call (Search (OLDER 86400)) (Returned ''OK'' [Bytes ''7 8 9'']),
      Call (Fetch ''7'') (Raised (IMAP4_error ''FETCH command error'')),
      Log ERROR (IMAP_error ''alice'' (IMAP4_error ''FETCH command error''))] \<and>
   teardown_calls (fst (process_mailbox example_server example_account [(''Drafts'', 24)] []))
     = []"
  by (simp add: drafts_account_run)

text \<open>
  C2, amended. When the processing of an account completes without any exception (which
  includes folders whose search was answered with a failure status), \<^verbatim>\<open>close\<close> and then
  \<^verbatim>\<open>logout\<close> are called exactly once, as the last two events. When a call other than
  these two raises, or an expression of the script itself raises, or the exception leaves
  \<open>process_mailbox\<close>, neither \<^verbatim>\<open>close\<close> nor \<^verbatim>\<open>logout\<close> is called.
\<close>

theorem teardown_only_on_normal_completion:
  assumes run: "process_mailbox mail mbox_config cutoff_config h = (t, r)"
  shows "(r = Inr () \<and> \<not> list_ex handler_event t \<longrightarrow>
            (\<exists>pre rc rl. t = pre @ [Call Close rc, Call Logout rl] \<and> teardown_calls pre = [])) \<and>
         (\<forall>c e. Call c (Raised e) \<in> set t \<and> c \<noteq> Close \<and> c \<noteq> Logout \<longrightarrow>
            teardown_calls t = []) \<and>
         (list_ex handler_event t \<and> clean t \<longrightarrow> teardown_calls t = []) \<and>
         (r \<noteq> Inr () \<longrightarrow> teardown_calls t = [])"
  using run
proof (cases rule: process_mailbox_cases)
  case (unbound e')
  from unbound(1) have "teardown_calls t = []"
    by (cases rule: connect_mailbox_cases) auto
  with unbound(2) show ?thesis by simp
next
  case (completed user t0 t1)
  from completed(1) obtain host ty dat where t0: "t0 = [Call (Connect host) (Returned ty dat)]"
    by (cases rule: connect_mailbox_cases) auto
  have "clean t1"
    by (rule terminal_Inr[OF wellD[OF well_process_session completed(2)]])
  with t0 completed(3) have clean: "clean t" by simp
  from completed(2) obtain password ty' dat' tf rc rl where
    loop: "folder_loop mail user cutoff_config (h @ t0 @ [Call (Login user password) (Returned ty' dat')])
         = (tf, Inr ())"
    and t1: "t1 = Call (Login user password) (Returned ty' dat') # tf @ [Call Close rc, Call Logout rl]"
    by (cases rule: process_session_cases) auto
  have "teardown_calls tf = []"
    by (rule folder_events_teardown[OF folder_loop_events[OF loop]])
  with t0 have "teardown_calls (t0 @ Call (Login user password) (Returned ty' dat') # tf) = []"
    by simp
  moreover have "t = (t0 @ Call (Login user password) (Returned ty' dat') # tf) @
      [Call Close rc, Call Logout rl]"
    using completed(3) t1 by simp
  moreover have "\<not> list_ex handler_event t"
    using completed(3) t0 t1 folder_events_handler[OF folder_loop_events[OF loop]] by simp
  ultimately show ?thesis
    using completed(4) clean by (auto dest: clean_not_raised)
next
  case (caught user t0 t1 e')
  from caught(1) obtain host ty dat where t0: "t0 = [Call (Connect host) (Returned ty dat)]"
    by (cases rule: connect_mailbox_cases) auto
  from caught(2) have "(\<forall>c e. Call c (Raised e) \<in> set t1 \<and> c \<noteq> Close \<and> c \<noteq> Logout \<longrightarrow>
        teardown_calls t1 = []) \<and> (clean t1 \<longrightarrow> teardown_calls t1 = [])"
  proof (cases rule: process_session_cases)
    case (folders_raised password ty' dat' tf e'')
    from folder_events_teardown[OF folder_loop_events[OF folders_raised(2)]] folders_raised(3)
    show ?thesis by simp
  next
    case (close_raised password ty' dat' tf e'')
    from folder_loop_clean[OF close_raised(2)] have "\<And>c e. Call c (Raised e) \<notin> set tf"
      by (rule clean_not_raised)
    with close_raised(3) show ?thesis by auto
  next
    case (logout_raised password ty' dat' tf tyc datc e'')
    from folder_loop_clean[OF logout_raised(2)] have "\<And>c e. Call c (Raised e) \<notin> set tf"
      by (rule clean_not_raised)
    with logout_raised(3) show ?thesis by auto
  qed auto
  with caught(3,4) t0 show ?thesis by auto
qed

theorem teardown_only_on_normal_completion_witness:
  "teardown_calls (fst (process_mailbox example_server example_account [(''Spam'', 1)] []))
     = [Close, Logout] \<and>
   Call (Fetch ''7'') (Raised (IMAP4_error ''FETCH command error''))
     \<in> set (fst (process_mailbox example_server example_account [(''Drafts'', 24)] [])) \<and>
   teardown_calls (fst (process_mailbox example_server example_account [(''Drafts'', 24)] []))
     = [] \<and>
   clean (fst (process_mailbox example_server incomplete_account [(''Spam'', 1)] [])) \<and>
   list_ex handler_event
     (fst (process_mailbox example_server incomplete_account [(''Spam'', 1)] [])) \<and>
   teardown_calls (fst (process_mailbox example_server incomplete_account [(''Spam'', 1)] []))
     = [] \<and>
   snd (process_mailbox example_server down_account [(''Spam'', 1)] []) \<noteq> Inr () \<and>
   teardown_calls (fst (process_mailbox example_server down_account [(''Spam'', 1)] [])) = []"
proof -
  have "\<exists>pre rc rl. fst (process_mailbox example_server example_account [(''Spam'', 1)] [])
      = pre @ [Call Close rc, Call Logout rl] \<and> teardown_calls pre = []"
    using teardown_only_on_normal_completion[OF spam_account_run]
    by (simp add: spam_account_run)
  then have "teardown_calls (fst (process_mailbox example_server example_account
      [(''Spam'', 1)] [])) = [Close, Logout]"
    by auto
  moreover have "teardown_calls (fst (process_mailbox example_server example_account
      [(''Drafts'', 24)] [])) = []"
    using teardown_only_on_normal_completion[OF drafts_account_run]
    by (simp add: drafts_account_run)
  moreover have "teardown_calls (fst (process_mailbox example_server incomplete_account
      [(''Spam'', 1)] [])) = []"
    using teardown_only_on_normal_completion[OF incomplete_run]
    by (simp add: incomplete_run)
  moreover have "teardown_calls (fst (process_mailbox example_server down_account
      [(''Spam'', 1)] [])) = []"
    using teardown_only_on_normal_completion[OF down_run]
    by (simp add: down_run)
  ultimately show ?thesis
    by (simp add: drafts_account_run incomplete_run down_run)
qed

text \<open>
  C10. When a \<^verbatim>\<open>store\<close> raises while an account is processed, the handler of the account
  catches the exception and logs it, and that record is the only event after the failing
  store: no further message is marked and no further folder is attempted. Neither
  \<^verbatim>\<open>close\<close> nor \<^verbatim>\<open>logout\<close> is called, and from the select of the folder in which the
  store failed onwards no expunge is issued, so the marks already set there stay
  uncommitted.
\<close>

theorem store_exception_aborts_account:
  assumes run: "process_mailbox mail mbox_config cutoff_config h = (t, r)"
    and st: "Call (Store num) (Raised e) \<in> set t"
  shows "r = Inr () \<and>
         (\<exists>user pre. mbox_config ''username'' = Some user \<and>
            t = pre @ [Call (Store num) (Raised e), Log ERROR (handler_record user e)]) \<and>
         teardown_calls t = [] \<and>
         (\<exists>before folder rs after. t = before @ Call (Select folder) rs # after \<and>
            Call (Store num) (Raised e) \<in> set after \<and>
            Expunge \<notin> set (calls after) \<and> selects after = [])"
  using run
proof (cases rule: process_mailbox_cases)
  case (unbound e')
  from unbound(1) st show ?thesis by (cases rule: connect_mailbox_cases) auto
next
  case (completed user t0 t1)
  from completed(1) have "clean t0" by (cases rule: connect_mailbox_cases) auto
  moreover have "clean t1"
    by (rule terminal_Inr[OF wellD[OF well_process_session completed(2)]])
  ultimately have "clean t" using completed(3) by simp
  with st show ?thesis by (auto dest: clean_not_raised)
next
  case (caught user t0 t1 e')
  from caught(1) obtain host ty dat where user: "mbox_config ''username'' = Some user"
    and t0: "t0 = [Call (Connect host) (Returned ty dat)]"
    by (cases rule: connect_mailbox_cases) auto
  from st caught(3) t0 have mem: "Call (Store num) (Raised e) \<in> set t1" by auto
  then obtain p q where t1: "t1 = p @ Call (Store num) (Raised e) # q"
    by (auto dest: split_list)
  from terminal_raised[OF wellD[OF well_process_session caught(2)] t1]
  have q: "q = []" and e': "e' = e" by simp_all
  from caught(2) show ?thesis
  proof (cases rule: process_session_cases)
    case (folders_raised password ty' dat' tf e'')
    from folders_raised(3) mem have memf: "Call (Store num) (Raised e) \<in> set tf" by auto
    from folders_raised(2,4) have "folder_loop mail user cutoff_config
        ((h @ t0) @ [Call (Login user password) (Returned ty' dat')]) = (tf, Inl e')" by simp
    from folder_loop_store_raised[OF this memf] obtain before folder rs after where
      tf: "tf = before @ Call (Select folder) rs # after"
      and after: "Call (Store num) (Raised e) \<in> set after" "Expunge \<notin> set (calls after)"
        "selects after = []" by blast
    have "teardown_calls tf = []"
      by (rule folder_events_teardown[OF folder_loop_events[OF folders_raised(2)]])
    moreover have "t = (t0 @ Call (Login user password) (Returned ty' dat') # before) @
        Call (Select folder) rs # (after @ [Log ERROR (handler_record user e)])"
      using caught(3) folders_raised(3) tf e' by simp
    moreover have "t = (t0 @ p) @ [Call (Store num) (Raised e), Log ERROR (handler_record user e)]"
      using caught(3) t1 q e' by simp
    ultimately show ?thesis
      using caught(3,4) user t0 folders_raised(3) after
      by (intro conjI exI[of _ user] exI[of _ "t0 @ p"]
          exI[of _ "t0 @ Call (Login user password) (Returned ty' dat') # before"]
          exI[of _ folder] exI[of _ rs] exI[of _ "after @ [Log ERROR (handler_record user e)]"])
        simp_all
  next
    case (close_raised password ty' dat' tf e'')
    with mem show ?thesis by (auto dest!: folder_loop_clean clean_not_raised)
  next
    case (logout_raised password ty' dat' tf tyc datc e'')
    with mem show ?thesis by (auto dest!: folder_loop_clean clean_not_raised)
  qed (use mem in auto)
qed

theorem store_exception_aborts_account_witness:
  "Call (Store ''5'') (Raised (IMAP4_error ''STORE command error''))
     \<in> set (fst (process_mailbox example_server example_account
          [(''Sent'', 24), (''INBOX'', 24)] [])) \<and>
   snd (process_mailbox example_server example_account [(''Sent'', 24), (''INBOX'', 24)] [])
     = Inr () \<and>
   teardown_calls (fst (process_mailbox example_server example_account
     [(''Sent'', 24), (''INBOX'', 24)] [])) = []"
proof -
  have "Call (Store ''5'') (Raised (IMAP4_error ''STORE command error''))
     \<in> set (fst (process_mailbox example_server example_account
          [(''Sent'', 24), (''INBOX'', 24)] []))"
    by (simp add: sent_run)
  with store_exception_aborts_account[OF sent_run, of "''5''"
      "IMAP4_error ''STORE command error''"]
  show ?thesis by (simp add: sent_run)
qed

text \<open>
  C3 describes what the two handlers of \<open>process_mailbox\<close> are written to do, and the
  script misses it when the connection itself fails: \<open>user\<close> is assigned on line 62, after
  the connection is made on line 61, and both handlers format \<open>user\<close> into their record.
  With the first account's host down, the handler raises \<^verbatim>\<open>UnboundLocalError\<close>, nothing
  is logged, the exception leaves \<open>main\<close>, and the second account is never attempted.
\<close>

theorem connection_failure_escapes:
  "main example_server outage_config [] =
     ([Log INFO Start_mail_cleaner,
       Call (Connect ''down.example.org'') (Raised (OSError ''Connection refused''))],
      Inl (UnboundLocalError ''user''))"
  by (simp add: outage_config_def account_defs run_defs)

text \<open>
  C6. When the login of an account is rejected, its error is logged and the loop of
  \<open>main\<close> goes on: \<open>process_mailbox\<close> is run for the account configured next, and then the
  loop continues with the accounts after that one.
\<close>

theorem auth_failure_does_not_stop_run:
  assumes "mboxes cfg = before @ (a, mbox_a) # (b, mbox_b) # rest"
    and "account_loop mail (cutofftime cfg) before (h @ [Log INFO Start_mail_cleaner])
           = (t0, Inr ())"
    and "mbox_a ''imap'' = Some host" and "mbox_a ''username'' = Some user"
    and "mbox_a ''password'' = Some password"
    and "mail (h @ Log INFO Start_mail_cleaner # t0) (Connect host) = Returned ty dat"
    and "mail (h @ Log INFO Start_mail_cleaner # t0 @ [Call (Connect host) (Returned ty dat)])
           (Login user password) = Raised e"
    and "ta = Log INFO Start_mail_cleaner # t0 @
           [Call (Connect host) (Returned ty dat), Call (Login user password) (Raised e),
            Log ERROR (handler_record user e)]"
    and "process_mailbox mail mbox_b (cutofftime cfg) (h @ ta) = (tb, rb)"
  shows "main mail cfg h =
           (case rb of
              Inl e' \<Rightarrow> (ta @ tb, Inl e')
            | Inr u \<Rightarrow>
                (ta @ tb @ fst (account_loop mail (cutofftime cfg) rest (h @ ta @ tb)),
                 snd (account_loop mail (cutofftime cfg) rest (h @ ta @ tb))))"
proof -
  let ?h1 = "h @ [Log INFO Start_mail_cleaner]"
  let ?ta = "[Call (Connect host) (Returned ty dat), Call (Login user password) (Raised e),
       Log ERROR (handler_record user e)]"
  have a: "process_mailbox mail mbox_a (cutofftime cfg) (?h1 @ t0) = (?ta, Inr ())"
    by (rule process_mailbox_login_raised) (use assms in simp_all)
  have b: "process_mailbox mail mbox_b (cutofftime cfg) ((?h1 @ t0) @ ?ta) = (tb, rb)"
    using assms(8,9) by simp
  have rest: "account_loop mail (cutofftime cfg) ((b, mbox_b) # rest) ((?h1 @ t0) @ ?ta) =
      (case rb of
         Inl e' \<Rightarrow> (tb, Inl e')
       | Inr u \<Rightarrow> (tb @ fst (account_loop mail (cutofftime cfg) rest (h @ ta @ tb)),
                   snd (account_loop mail (cutofftime cfg) rest (h @ ta @ tb))))"
    using b assms(8) by (cases rb) (simp_all add: pseq_Inl pseq_Inr)
  have "account_loop mail (cutofftime cfg) ((a, mbox_a) # (b, mbox_b) # rest) (?h1 @ t0) =
      (?ta @ fst (account_loop mail (cutofftime cfg) ((b, mbox_b) # rest) ((?h1 @ t0) @ ?ta)),
       snd (account_loop mail (cutofftime cfg) ((b, mbox_b) # rest) ((?h1 @ t0) @ ?ta)))"
    using a by (simp add: pseq_Inr)
  with assms(2) have "account_loop mail (cutofftime cfg) (mboxes cfg) ?h1 =
      (t0 @ ?ta @ fst (account_loop mail (cutofftime cfg) ((b, mbox_b) # rest) ((?h1 @ t0) @ ?ta)),
       snd (account_loop mail (cutofftime cfg) ((b, mbox_b) # rest) ((?h1 @ t0) @ ?ta)))"
    unfolding assms(1) for_each_append by (simp add: pseq_Inr)
  then show ?thesis
    unfolding main_def rest by (cases rb) (simp_all add: pseq_logging assms(8))
qed

theorem auth_failure_does_not_stop_run_witness:
  "main example_server lockout_config [] =
     ([Log INFO Start_mail_cleaner,
       Call (Connect ''imap.example.org'') (Returned ''OK'' []),
       Call (Login ''carol'' ''wrong'') (Raised (IMAP4_error ''AUTHENTICATIONFAILED'')),
       Log ERROR (IMAP_error ''carol'' (IMAP4_error ''AUTHENTICATIONFAILED'')),
       Call (Connect ''imap.example.org'') (Returned ''OK'' []),
       Call (Login ''alice'' ''secret'') (Returned ''OK'' []),
       Call (Select ''Spam'') (Returned ''OK'' [Bytes ''3'']),
       Log INFO (Search_for_messages_older ''alice'' ''Spam'' 1),
       Call (Search (OLDER 3600)) (Returned ''OK'' [Bytes []]),
       Log INFO (Delete_all_marked ''alice'' ''Spam''),
       Call Expunge (Returned ''OK'' []),
       Call Close (Returned ''OK'' []),
       Call Logout (Returned ''BYE'' [])],
      Inr ())"
proof -
  have "mboxes lockout_config =
      [] @ (''carol'', locked_account) # (''alice'', example_account) # []"
    by (simp add: lockout_config_def)
  moreover have "account_loop example_server (cutofftime lockout_config) []
      ([] @ [Log INFO Start_mail_cleaner]) = ([], Inr ())"
    by (simp add: return_def)
  moreover have "locked_account ''imap'' = Some ''imap.example.org''"
    and "locked_account ''username'' = Some ''carol''"
    and "locked_account ''password'' = Some ''wrong''"
    by (simp_all add: locked_account_def)
  moreover have "example_server ([] @ Log INFO Start_mail_cleaner # [])
      (Connect ''imap.example.org'') = Returned ''OK'' []"
    by (simp add: example_server_def)
  moreover have "example_server ([] @ Log INFO Start_mail_cleaner # [] @
      [Call (Connect ''imap.example.org'') (Returned ''OK'' [])]) (Login ''carol'' ''wrong'')
      = Raised (IMAP4_error ''AUTHENTICATIONFAILED'')"
    by (simp add: example_server_def)
  moreover have "[Log INFO Start_mail_cleaner,
      Call (Connect ''imap.example.org'') (Returned ''OK'' []),
      Call (Login ''carol'' ''wrong'') (Raised (IMAP4_error ''AUTHENTICATIONFAILED'')),
      Log ERROR (IMAP_error ''carol'' (IMAP4_error ''AUTHENTICATIONFAILED''))] =
      Log INFO Start_mail_cleaner # [] @
      [Call (Connect ''imap.example.org'') (Returned ''OK'' []),
       Call (Login ''carol'' ''wrong'') (Raised (IMAP4_error ''AUTHENTICATIONFAILED'')),
       Log ERROR (handler_record ''carol'' (IMAP4_error ''AUTHENTICATIONFAILED''))]"
    by (simp add: handler_record_def)
  moreover have "process_mailbox example_server example_account (cutofftime lockout_config)
      ([] @ [Log INFO Start_mail_cleaner,
      Call (Connect ''imap.example.org'') (Returned ''OK'' []),
      Call (Login ''carol'' ''wrong'') (Raised (IMAP4_error ''AUTHENTICATIONFAILED'')),
      Log ERROR (IMAP_error ''carol'' (IMAP4_error ''AUTHENTICATIONFAILED''))]) =
     ([Call (Connect ''imap.example.org'') (Returned ''OK'' []),
       Call (Login ''alice'' ''secret'') (Returned ''OK'' []),
       Call (Select ''Spam'') (Returned ''OK'' [Bytes ''3'']),
       Log INFO (Search_for_messages_older ''alice'' ''Spam'' 1),
       Call (Search (OLDER 3600)) (Returned ''OK'' [Bytes []]),
       Log INFO (Delete_all_marked ''alice'' ''Spam''),
       Call Expunge (Returned ''OK'' []),
       Call Close (Returned ''OK'' []),
       Call Logout (Returned ''BYE'' [])],
      Inr ())"
    by (simp add: lockout_config_def alice_after_carol_run)
  ultimately show ?thesis
    by (rule auth_failure_does_not_stop_run[THEN trans]) (simp add: return_def)
qed

end
